theory Spec2Isabelle
  imports Main
begin

section \<open>Date Selector\<close>

text \<open>
  \<^verbatim>\<open>computeSelectedDatesFromMode(perFileDates)\<close> of \<^verbatim>\<open>script.js\<close>. A JavaScript
  \<^verbatim>\<open>Date\<close> is its time value, an integer number of milliseconds (local wall-clock time
  is used on both sides of every comparison, so the time zone cancels out). The entries of
  \<^verbatim>\<open>perFileDates\<close> are the objects \<^verbatim>\<open>{ dateStr, date }\<close> built by the callers.
\<close>

record dateEntry =
  dateStr :: string
  date :: int

text \<open>\<^verbatim>\<open>const FIXED_START = new Date('2006-12-30T00:00')\<close>: day 13512 after 1970-01-01.\<close>

definition FIXED_START :: int where
  "FIXED_START = 13512 * 86400000"

text \<open>
  What the function reads from the page: the checked radio button's value, the three number
  inputs as \<^verbatim>\<open>parseInt(input.value, 10)\<close> returns them (\<open>None\<close> is \<^verbatim>\<open>NaN\<close>), and the
  anchoring checkbox.
\<close>

record controls =
  timeMode :: string
  drawsInput :: "int option"
  yearsInput :: "int option"
  monthsInput :: "int option"
  fixedStartCB :: bool

text \<open>
  The built-in calendar arithmetic the function calls: the current time \<^verbatim>\<open>new Date()\<close>,
  and \<^verbatim>\<open>d.setFullYear(d.getFullYear() + k)\<close>, \<^verbatim>\<open>d.setMonth(d.getMonth() + k)\<close> as
  functions of the time value and \<open>k\<close>. They belong to the language, not to the repository,
  and are parameters of the model.
\<close>

record calendar =
  now :: int
  plusYears :: "int \<Rightarrow> int \<Rightarrow> int"
  plusMonths :: "int \<Rightarrow> int \<Rightarrow> int"

text \<open>\<^verbatim>\<open>parseInt(..) || d\<close>: \<^verbatim>\<open>NaN\<close> and \<open>0\<close> are falsy.\<close>

definition or_default :: "int option \<Rightarrow> int \<Rightarrow> int" where
  "or_default v d = (case v of None \<Rightarrow> d | Some n \<Rightarrow> if n = 0 then d else n)"

text \<open>
  \<^verbatim>\<open>Array.prototype.slice\<close>: a negative index counts from the end, and both ends are
  clamped to the array.
\<close>

definition rel_index :: "int \<Rightarrow> nat \<Rightarrow> nat" where
  "rel_index i n = (if i < 0 then nat (max (int n + i) 0) else min (nat i) n)"

definition slice :: "int \<Rightarrow> int \<Rightarrow> 'a list \<Rightarrow> 'a list" where
  "slice s e xs =
     (let k = rel_index s (length xs); f = rel_index e (length xs)
      in take (f - k) (drop k xs))"

definition slice_from :: "int \<Rightarrow> 'a list \<Rightarrow> 'a list" where
  "slice_from s xs = drop (rel_index s (length xs)) xs"

text \<open>
  \<^verbatim>\<open>selectedDates\<close> is a \<^verbatim>\<open>Set\<close>: it keeps insertion order and ignores an element it
  already holds. \<^verbatim>\<open>xs.forEach(x => selectedDates.add(x.dateStr))\<close> after
  \<^verbatim>\<open>selectedDates.clear()\<close> is \<open>add_all\<close>.
\<close>

definition set_add :: "'a \<Rightarrow> 'a list \<Rightarrow> 'a list" where
  "set_add x s = (if x \<in> set s then s else s @ [x])"

definition add_all :: "dateEntry list \<Rightarrow> string list" where
  "add_all xs = fold (\<lambda>x s. set_add (dateStr x) s) xs []"

definition computeSelectedDatesFromMode ::
  "calendar \<Rightarrow> controls \<Rightarrow> dateEntry list \<Rightarrow> string list" where
  "computeSelectedDatesFromMode cal ui perFileDates =
     (if timeMode ui = ''draws'' then
        (let N = or_default (drawsInput ui) 1
         in add_all (if fixedStartCB ui
                     then slice 0 N (filter (\<lambda>x. date x \<ge> FIXED_START) perFileDates)
                     else slice_from (- N) perFileDates))
      else if timeMode ui = ''years'' then
        (let yrs = or_default (yearsInput ui) 0
         in if fixedStartCB ui then
              (let end = (if yrs > 0 then plusYears cal FIXED_START yrs else FIXED_START)
               in add_all (filter (\<lambda>x. date x \<ge> FIXED_START \<and> date x \<le> end) perFileDates))
            else if yrs > 0 then
              (let cut = plusYears cal (now cal) (- yrs)
               in add_all (filter (\<lambda>x. date x \<ge> cut) perFileDates))
            else add_all perFileDates)
      else if timeMode ui = ''months'' then
        (let mon = or_default (monthsInput ui) 0
         in if fixedStartCB ui then
              (let end = (if mon > 0 then plusMonths cal FIXED_START mon else FIXED_START)
               in add_all (filter (\<lambda>x. date x \<ge> FIXED_START \<and> date x \<le> end) perFileDates))
            else if mon > 0 then
              (let cut = plusMonths cal (now cal) (- mon)
               in add_all (filter (\<lambda>x. date x \<ge> cut) perFileDates))
            else add_all perFileDates)
      else add_all perFileDates)"

text \<open>
  Two known draws: the epoch itself and 2007-01-16, seventeen days later.
\<close>

definition two_draws :: "dateEntry list" where
  "two_draws =
     [\<lparr>dateStr = ''2006-12-30'', date = FIXED_START\<rparr>,
      \<lparr>dateStr = ''2007-01-16'', date = FIXED_START + 17 * 86400000\<rparr>]"

definition anchored_zero :: "string \<Rightarrow> controls" where
  "anchored_zero m =
     \<lparr>timeMode = m, drawsInput = Some 1, yearsInput = Some 0, monthsInput = Some 0,
      fixedStartCB = True\<rparr>"

section \<open>Candidate Enumerator\<close>

text \<open>
  \<^verbatim>\<open>buildCandidateUrls()\<close> of \<^verbatim>\<open>script.js\<close>, the enumerator that feeds the fetch
  scheduler. It reads the clock only through \<^verbatim>\<open>today.getFullYear()\<close>, which is the
  argument of the model.
\<close>

definition DRAW_DAYS :: "nat list" where
  "DRAW_DAYS = [30, 31, 1, 2, 3, 14, 15, 16, 17]"

text \<open>\<^verbatim>\<open>n.toString()\<close> of a non-negative integer, and \<^verbatim>\<open>pad2\<close>.\<close>

definition digit :: "nat \<Rightarrow> char" where
  "digit n = ''0123456789'' ! n"

fun toString :: "nat \<Rightarrow> string" where
  "toString n = (if n < 10 then [digit n] else toString (n div 10) @ [digit (n mod 10)])"

declare toString.simps [simp del]

definition padStart2 :: "string \<Rightarrow> string" where
  "padStart2 s = replicate (2 - length s) (CHR ''0'') @ s"

definition pad2 :: "nat \<Rightarrow> string" where
  "pad2 n = padStart2 (toString n)"

record candidate =
  candDateStr :: string
  url :: string

text \<open>
  The loop nest \<^verbatim>\<open>for y .. for m .. for (const d of DRAW_DAYS)\<close> with its
  \<^verbatim>\<open>continue\<close>: the triples for which the body pushes a candidate, in order.
\<close>

definition candidate_days :: "nat \<Rightarrow> (nat \<times> nat \<times> nat) list" where
  "candidate_days thisYear =
     concat (map (\<lambda>y.
       concat (map (\<lambda>m.
         map (\<lambda>d. (y, m, d))
           (filter (\<lambda>d. \<not> (y = 2006 \<and> m = 12 \<and> d < 30)) DRAW_DAYS))
         [1 ..< 13]))
       [2006 ..< Suc thisYear])"

definition mk_candidate :: "nat \<times> nat \<times> nat \<Rightarrow> candidate" where
  "mk_candidate c =
     (case c of (y, m, d) \<Rightarrow>
        (let dateStr = toString y @ ''-'' @ pad2 m @ ''-'' @ pad2 d
         in \<lparr>candDateStr = dateStr, url = ''lottonumbers/'' @ dateStr @ ''.txt''\<rparr>))"

definition buildCandidateUrls :: "nat \<Rightarrow> candidate list" where
  "buildCandidateUrls thisYear = map mk_candidate (candidate_days thisYear)"

text \<open>
  The claimed contract, in the spec's words: a calendar date, from the epoch 2006-12-30
  through the current date, whose day of the month is in the allow-list.
\<close>

definition leap_year :: "nat \<Rightarrow> bool" where
  "leap_year y = (y mod 4 = 0 \<and> (y mod 100 \<noteq> 0 \<or> y mod 400 = 0))"

definition days_in_month :: "nat \<Rightarrow> nat \<Rightarrow> nat" where
  "days_in_month y m =
     (if m = 2 then (if leap_year y then 29 else 28)
      else if m = 4 \<or> m = 6 \<or> m = 9 \<or> m = 11 then 30 else 31)"

definition calendar_date :: "nat \<times> nat \<times> nat \<Rightarrow> bool" where
  "calendar_date c =
     (case c of (y, m, d) \<Rightarrow> 1 \<le> m \<and> m \<le> 12 \<and> 1 \<le> d \<and> d \<le> days_in_month y m)"

definition date_le :: "nat \<times> nat \<times> nat \<Rightarrow> nat \<times> nat \<times> nat \<Rightarrow> bool" where
  "date_le a b =
     (case a of (y, m, d) \<Rightarrow> case b of (y', m', d') \<Rightarrow>
        y < y' \<or> (y = y' \<and> (m < m' \<or> (m = m' \<and> d \<le> d'))))"

definition claimed_candidate :: "nat \<times> nat \<times> nat \<Rightarrow> nat \<times> nat \<times> nat \<Rightarrow> bool" where
  "claimed_candidate today c =
     (calendar_date c \<and> date_le (2006, 12, 30) c \<and> date_le c today
      \<and> snd (snd c) \<in> set DRAW_DAYS)"

section \<open>Persistence Cache and fetch planning\<close>

text \<open>
  The part of \<^verbatim>\<open>progressiveFetchAndProcess\<close> that decides what is fetched. The
  \<^verbatim>\<open>Map\<close> \<^verbatim>\<open>perFileAggMap\<close> is an association list from date keys to aggregates;
  the snapshot read by \<^verbatim>\<open>loadCacheBlob()\<close> is \<open>None\<close> when there is none. A missing
  \<^verbatim>\<open>fetchedAt\<close> is falsy like \<open>0\<close>; a missing \<^verbatim>\<open>data\<close> is \<open>None\<close>.
\<close>

definition CACHE_TTL_MS :: int where
  "CACHE_TTL_MS = 24 * 60 * 60 * 1000"

record 'a snapshot =
  fetchedAt :: int
  data :: "(string \<times> 'a) list option"

definition has :: "(string \<times> 'a) list \<Rightarrow> string \<Rightarrow> bool" where
  "has m k = (k \<in> fst ` set m)"

definition load_store :: "int \<Rightarrow> 'a snapshot option \<Rightarrow> (string \<times> 'a) list \<Rightarrow> (string \<times> 'a) list" where
  "load_store nowMs cached perFileAggMap =
     (case cached of
        None \<Rightarrow> perFileAggMap
      | Some c \<Rightarrow>
          if fetchedAt c \<noteq> 0 \<and> nowMs - fetchedAt c < CACHE_TTL_MS
          then (case data c of None \<Rightarrow> perFileAggMap | Some d \<Rightarrow> d)
          else perFileAggMap)"

record 'a fetchPlan =
  planStore :: "(string \<times> 'a) list"
  recentToFetch :: "candidate list"
  olderToFetch :: "candidate list"

text \<open>
  \<open>candidates\<close> is the candidate list after the sort by date key; \<open>recent\<close> is its last
  \<open>recentLimit\<close> elements and \<open>older\<close> the rest.
\<close>

definition fetch_plan ::
  "int \<Rightarrow> 'a snapshot option \<Rightarrow> (string \<times> 'a) list \<Rightarrow> nat \<Rightarrow> candidate list \<Rightarrow> 'a fetchPlan" where
  "fetch_plan nowMs cached perFileAggMap recentLimit candidates =
     (let store = load_store nowMs cached perFileAggMap;
          total = length candidates;
          recent = drop (total - recentLimit) candidates;
          older = take (total - recentLimit) candidates
      in \<lparr>planStore = store,
          recentToFetch = filter (\<lambda>x. \<not> has store (candDateStr x)) recent,
          olderToFetch = filter (\<lambda>x. \<not> has store (candDateStr x)) older\<rparr>)"

text \<open>
  \<^verbatim>\<open>batchFetchWithProgress(urls, concurrency)\<close> starts \<^verbatim>\<open>min(concurrency, urls.length)\<close>
  workers that share one cursor: every index below \<^verbatim>\<open>urls.length\<close> is taken by exactly
  one worker, which issues \<^verbatim>\<open>fetch(url)\<close> for it. The requests of a completed batch:
\<close>

definition batch_requests :: "nat \<Rightarrow> candidate list \<Rightarrow> string list" where
  "batch_requests concurrency urls =
     (if min concurrency (length urls) = 0 then [] else map url urls)"

text \<open>The recent phase runs first, the older phase after it; each only if it has targets.\<close>

definition issued_requests :: "nat \<Rightarrow> 'a fetchPlan \<Rightarrow> string list" where
  "issued_requests concurrency plan =
     (if recentToFetch plan \<noteq> [] then batch_requests concurrency (recentToFetch plan) else [])
     @ (if olderToFetch plan \<noteq> [] then batch_requests concurrency (olderToFetch plan) else [])"

section \<open>JavaScript objects\<close>

text \<open>
  A plain object is the association list of its own properties; \<open>map_of\<close> reads an own
  property and \<open>put\<close> is the assignment \<^verbatim>\<open>obj[k] = v\<close> (an existing key keeps its
  place, a new key goes last). \<^verbatim>\<open>Object.entries(obj)\<close> lists every own key once, with
  its value; nothing modelled here depends on the order in which it does.
\<close>

fun put :: "'k \<Rightarrow> 'v \<Rightarrow> ('k \<times> 'v) list \<Rightarrow> ('k \<times> 'v) list" where
  "put k v [] = [(k, v)]"
| "put k v ((k', v') # al) = (if k' = k then (k, v) # al else (k', v') # put k v al)"

definition entries :: "('k \<times> 'v) list \<Rightarrow> ('k \<times> 'v) list" where
  "entries al = map (\<lambda>k. (k, the (map_of al k))) (remdups (map fst al))"

text \<open>
  A property that is not an object's own is looked up on \<^verbatim>\<open>Object.prototype\<close>. These are
  the names every plain object inherits from it in a fresh realm.
\<close>

definition inherited_names :: "string list" where
  "inherited_names =
     [''constructor'', ''__defineGetter__'', ''__defineSetter__'', ''hasOwnProperty'',
      ''__lookupGetter__'', ''__lookupSetter__'', ''isPrototypeOf'', ''propertyIsEnumerable'',
      ''toString'', ''valueOf'', ''__proto__'', ''toLocaleString'']"

datatype error = TypeError | Unmodelled

text \<open>A loop whose body may throw: the first error ends it.\<close>

fun fold_err :: "('a \<Rightarrow> 's \<Rightarrow> 'e + 's) \<Rightarrow> 'a list \<Rightarrow> 's \<Rightarrow> 'e + 's" where
  "fold_err f [] s = Inr s"
| "fold_err f (x # xs) s = (case f x s of Inl e \<Rightarrow> Inl e | Inr s' \<Rightarrow> fold_err f xs s')"

section \<open>Categories and aggregates\<close>

definition PRIZE_LIST :: "string list" where
  "PRIZE_LIST =
     [''FIRST'', ''SECOND'', ''THIRD'', ''FOURTH'', ''FIFTH'', ''TWO'', ''THREE_FIRST'',
      ''THREE_LAST'', ''NEAR_FIRST'']"

definition startsWith :: "string \<Rightarrow> string \<Rightarrow> bool" where
  "startsWith s p = (take (length p) s = p)"

text \<open>\<^verbatim>\<open>tag === 'TWO' ? 2 : tag.startsWith('THREE') ? 3 : 6\<close>\<close>

definition fixed_len :: "string \<Rightarrow> nat" where
  "fixed_len tag = (if tag = ''TWO'' then 2 else if startsWith tag ''THREE'' then 3 else 6)"

text \<open>
  The aggregate of one file, \<^verbatim>\<open>{ dateStr, prizesAgg, digitAgg, results }\<close>:
  \<^verbatim>\<open>prizesAgg[p]\<close> maps a value to its count, \<^verbatim>\<open>digitAgg[p]\<close> is an array with one
  object per digit position, mapping a digit (one code unit) to its count, and
  \<^verbatim>\<open>results[p]\<close> is the display string.
\<close>

record aggregate =
  aggDateStr :: string
  prizesAgg :: "(string \<times> (string \<times> nat) list) list"
  digitAgg :: "(string \<times> (char \<times> nat) list list) list"
  results :: "(string \<times> string) list"

section \<open>Record Parser\<close>

text \<open>
  \<^verbatim>\<open>parseTextToAggregate(dateStr, text)\<close>. A string is the list of its code units; the
  model covers texts whose code units are below 256, so that \<^verbatim>\<open>\s\<close> and
  \<^verbatim>\<open>trim()\<close> see these white-space characters: tab, line feed, vertical tab, form feed,
  carriage return, space and no-break space.
\<close>

definition is_space :: "char \<Rightarrow> bool" where
  "is_space c =
     (c \<in> set [CHR 0x09, CHR 0x0A, CHR 0x0B, CHR 0x0C, CHR 0x0D, CHR 0x20, CHR 0xA0])"

text \<open>\<^verbatim>\<open>text.split(/\r?\n/)\<close>: \<open>cur\<close> is the piece being read, reversed.\<close>

fun split_lines_from :: "string \<Rightarrow> string \<Rightarrow> string list" where
  "split_lines_from cur [] = [rev cur]"
| "split_lines_from cur [c] = (if c = CHR 0x0A then [rev cur, []] else [rev (c # cur)])"
| "split_lines_from cur (c # d # cs) =
     (if c = CHR 0x0A then rev cur # split_lines_from [] (d # cs)
      else if c = CHR 0x0D \<and> d = CHR 0x0A then rev cur # split_lines_from [] cs
      else split_lines_from (c # cur) (d # cs))"

definition split_lines :: "string \<Rightarrow> string list" where
  "split_lines text = split_lines_from [] text"

definition trim :: "string \<Rightarrow> string" where
  "trim s = rev (dropWhile is_space (rev (dropWhile is_space s)))"

text \<open>\<^verbatim>\<open>s.split(/\s+/)\<close>: a run of white space at either end leaves an empty piece there.\<close>

function split_ws_from :: "string \<Rightarrow> string \<Rightarrow> string list" where
  "split_ws_from cur [] = [rev cur]"
| "split_ws_from cur (c # cs) =
     (if is_space c then rev cur # split_ws_from [] (dropWhile is_space cs)
      else split_ws_from (c # cur) cs)"
  by pat_completeness auto
termination
  by (relation "measure (\<lambda>(cur, s). length s)")
    (auto simp: le_imp_less_Suc length_dropWhile_le)

definition split_ws :: "string \<Rightarrow> string list" where
  "split_ws s = split_ws_from [] s"

text \<open>\<^verbatim>\<open>n.slice(-len)\<close>, the last \<open>len\<close> code units, and \<^verbatim>\<open>xs.join(sep)\<close>.\<close>

definition last_chars :: "nat \<Rightarrow> string \<Rightarrow> string" where
  "last_chars len n = drop (length n - len) n"

fun join :: "string \<Rightarrow> string list \<Rightarrow> string" where
  "join sep [] = []"
| "join sep [x] = x"
| "join sep (x # y # ys) = x @ sep @ join sep (y # ys)"

text \<open>
  The objects \<^verbatim>\<open>prizesAgg\<close>, \<^verbatim>\<open>digitAgg\<close>, \<^verbatim>\<open>results\<close> and the inner buckets are
  plain objects, so reading a key that is not their own reads \<^verbatim>\<open>Object.prototype\<close>.
  The parser can also write outside its own objects: on a line whose tag is
  \<^verbatim>\<open>__proto__\<close>, \<^verbatim>\<open>prizesAgg[tag]\<close> is \<^verbatim>\<open>Object.prototype\<close> itself, and on a line
  whose tag is another inherited name it is a built-in function (\<^verbatim>\<open>Object\<close> for
  \<^verbatim>\<open>constructor\<close>, the method of \<^verbatim>\<open>Object.prototype\<close> for the others). The state of the
  realm that the model carries from call to call is what the parser has written there: the
  numeric properties it has added to \<^verbatim>\<open>Object.prototype\<close>, and for each of these
  functions, by its inherited name, the names of the properties it has assigned on it (their
  values never reach an aggregate; what matters is which index keys are defined). Both are
  empty in a fresh realm. \<open>strict\<close> says whether the code runs in strict mode (the script
  does not), where an assignment that cannot be made throws instead of doing nothing.
\<close>

type_synonym props = "(string \<times> nat) list"

type_synonym fn_props = "(string \<times> string list) list"

record realm =
  protoProps :: props
  fnProps :: fn_props

definition fresh_realm :: realm where
  "fresh_realm = \<lparr>protoProps = [], fnProps = []\<rparr>"

record parse_state =
  prizes :: "(string \<times> (string \<times> nat) list) list"
  digits :: "(string \<times> (char \<times> nat) list list) list"
  res :: "(string \<times> string) list"
  proto :: props
  fns :: fn_props

definition realm_of :: "parse_state \<Rightarrow> realm" where
  "realm_of st = \<lparr>protoProps = proto st, fnProps = fns st\<rparr>"

text \<open>
  \<^verbatim>\<open>prizesAgg[tag][val] = (prizesAgg[tag][val] || 0) + 1\<close> for a recognised tag: a value
  the bucket does not hold yet reads the prototype. (A value that named a built-in function
  there would add 1 to a function; no value is that long.)
\<close>

definition inc_value :: "props \<Rightarrow> string \<Rightarrow> (string \<times> nat) list \<Rightarrow> error + (string \<times> nat) list" where
  "inc_value op val bucket =
     (case map_of bucket val of
        Some n \<Rightarrow> Inr (put val (n + 1) bucket)
      | None \<Rightarrow>
          (case map_of op val of
             Some n \<Rightarrow> Inr (put val (n + 1) bucket)
           | None \<Rightarrow>
               if val \<in> set inherited_names then Inl Unmodelled
               else Inr (put val 1 bucket)))"

text \<open>\<^verbatim>\<open>digitAgg[tag][i][d] = (digitAgg[tag][i][d] || 0) + 1\<close> for one digit.\<close>

definition inc_digit :: "props \<Rightarrow> char \<Rightarrow> (char \<times> nat) list \<Rightarrow> (char \<times> nat) list" where
  "inc_digit op d pod =
     put d ((case map_of pod d of
               Some n \<Rightarrow> n
             | None \<Rightarrow> (case map_of op [d] of Some n \<Rightarrow> n | None \<Rightarrow> 0)) + 1) pod"

text \<open>
  \<^verbatim>\<open>val.split('').forEach((d, i) => ...)\<close>: past the end of the array
  \<^verbatim>\<open>digitAgg[tag][i]\<close> is \<^verbatim>\<open>undefined\<close>.
\<close>

fun inc_digits :: "props \<Rightarrow> string \<Rightarrow> nat \<Rightarrow> (char \<times> nat) list list
    \<Rightarrow> error + (char \<times> nat) list list" where
  "inc_digits op [] i pods = Inr pods"
| "inc_digits op (d # ds) i pods =
     (if i < length pods then inc_digits op ds (Suc i) (pods[i := inc_digit op d (pods ! i)])
      else Inl TypeError)"

text \<open>The body of \<^verbatim>\<open>lastVals.forEach(val => ...)\<close> for a recognised tag.\<close>

definition own_val :: "props \<Rightarrow> string
    \<Rightarrow> (string \<times> nat) list \<times> (char \<times> nat) list list
    \<Rightarrow> error + (string \<times> nat) list \<times> (char \<times> nat) list list" where
  "own_val op val bp =
     (case bp of (bucket, pods) \<Rightarrow>
        if val = [] then Inr (bucket, pods)
        else (case inc_value op val bucket of
                Inl e \<Rightarrow> Inl e
              | Inr bucket' \<Rightarrow>
                  (case inc_digits op val 0 pods of
                     Inl e \<Rightarrow> Inl e
                   | Inr pods' \<Rightarrow> Inr (bucket', pods'))))"

text \<open>
  The indices \<open>0 .. length val - 1\<close> as property keys: \<^verbatim>\<open>x[i]\<close> on something that is not
  an array reads the property named by the decimal numeral of \<open>i\<close>.
\<close>

definition index_keys :: "string \<Rightarrow> string list" where
  "index_keys val = map toString [0 ..< length val]"

text \<open>
  The same body when the tag is \<^verbatim>\<open>__proto__\<close>: the count is written to
  \<^verbatim>\<open>Object.prototype[val]\<close>, and \<^verbatim>\<open>digitAgg[tag][i]\<close> is
  \<^verbatim>\<open>Object.prototype[i]\<close>, either \<^verbatim>\<open>undefined\<close> (reading its property \<open>d\<close> throws) or
  a number written earlier (assigning to its property \<open>d\<close> throws in strict mode only).
  The write to the prototype stays when the call throws.
\<close>

definition proto_val :: "bool \<Rightarrow> string \<Rightarrow> props \<Rightarrow> (error \<times> props) + props" where
  "proto_val strict val op =
     (if val = [] then Inr op
      else if map_of op val = None \<and> val \<in> set inherited_names then Inl (Unmodelled, op)
      else
        (let op' = put val ((case map_of op val of Some n \<Rightarrow> n | None \<Rightarrow> 0) + 1) op
         in if strict \<or> (\<exists>k \<in> set (index_keys val). map_of op' k = None)
            then Inl (TypeError, op') else Inr op'))"

text \<open>
  The same body when \<^verbatim>\<open>prizesAgg[tag]\<close> is a number that an earlier call left on the
  prototype: every write is to a property of a number.
\<close>

definition num_val :: "bool \<Rightarrow> props \<Rightarrow> string \<Rightarrow> unit \<Rightarrow> error + unit" where
  "num_val strict op val u =
     (if val = [] then Inr ()
      else if strict \<or> (\<exists>k \<in> set (index_keys val). map_of op k = None) then Inl TypeError
      else Inr ())"

text \<open>
  The same body when \<^verbatim>\<open>prizesAgg[tag]\<close> is a built-in function \<open>F\<close>, which
  \<^verbatim>\<open>digitAgg[tag]\<close> then is too. \<open>len\<close> is 6 for these tags, so a value has at most six
  code units. Of the properties a function has or inherits, such a value can name:
  \<^verbatim>\<open>caller\<close>, an accessor of \<^verbatim>\<open>Function.prototype\<close> whose getter throws;
  \<^verbatim>\<open>length\<close> and \<^verbatim>\<open>name\<close>, own properties that are not writable, so that the
  assignment throws in strict mode and does nothing outside it; and writable methods
  (\<^verbatim>\<open>call\<close>, \<^verbatim>\<open>apply\<close>, \<^verbatim>\<open>bind\<close>, and \<^verbatim>\<open>keys\<close>, \<^verbatim>\<open>assign\<close>, ... of
  \<^verbatim>\<open>Object\<close>), which the assignment overwrites or shadows like any other name. After
  the assignment \<^verbatim>\<open>F[i]\<close> is read for every index of the value: it is
  \<^verbatim>\<open>undefined\<close> (reading its property \<open>d\<close> throws) unless the parser has assigned the
  key \<open>i\<close> on \<open>F\<close> or on \<^verbatim>\<open>Object.prototype\<close>, and then it is a number (assigning to
  its property \<open>d\<close> throws in strict mode only). What the parser has assigned on \<open>F\<close> stays
  when the call throws.
\<close>

definition fn_keys :: "fn_props \<Rightarrow> string \<Rightarrow> string list" where
  "fn_keys fk tag = (case map_of fk tag of None \<Rightarrow> [] | Some ks \<Rightarrow> ks)"

definition fn_val :: "bool \<Rightarrow> props \<Rightarrow> string \<Rightarrow> string \<Rightarrow> fn_props
    \<Rightarrow> (error \<times> fn_props) + fn_props" where
  "fn_val strict op tag val fk =
     (if val = [] then Inr fk
      else if 6 < length val then Inl (Unmodelled, fk)
      else if val = ''caller'' then Inl (TypeError, fk)
      else if val \<in> set [''length'', ''name''] \<and> strict then Inl (TypeError, fk)
      else
        (let fk' = (if val \<in> set [''length'', ''name''] then fk
                    else put tag (List.insert val (fn_keys fk tag)) fk)
         in if strict
               \<or> (\<exists>k \<in> set (index_keys val). k \<notin> set (fn_keys fk' tag) \<and> map_of op k = None)
            then Inl (TypeError, fk') else Inr fk'))"

text \<open>
  The branches of the line body on which \<^verbatim>\<open>prizesAgg[tag]\<close> is not one of the parser's
  own buckets. The guard \<^verbatim>\<open>if (!prizesAgg[tag]) return\<close> lets through a tag for which
  the prototype holds a non-zero number and the names every object inherits; any other tag
  ends the line. \<^verbatim>\<open>results[tag] = lastVals.join(', ')\<close> makes an own property of
  \<^verbatim>\<open>results\<close>, except that assigning a string to \<^verbatim>\<open>results['__proto__']\<close> does
  nothing.
\<close>

definition foreign_line :: "bool \<Rightarrow> string \<Rightarrow> string list \<Rightarrow> parse_state
    \<Rightarrow> (error \<times> realm) + parse_state" where
  "foreign_line strict tag lastVals st =
     (case map_of (proto st) tag of
        Some n \<Rightarrow>
          if n = 0 then Inr st
          else (case fold_err (num_val strict (proto st)) lastVals () of
                  Inl e \<Rightarrow> Inl (e, realm_of st)
                | Inr u \<Rightarrow> Inr (st\<lparr>res := put tag (join '', '' lastVals) (res st)\<rparr>))
      | None \<Rightarrow>
          if tag = ''__proto__'' then
            (case fold_err (proto_val strict) lastVals (proto st) of
               Inl (e, op') \<Rightarrow> Inl (e, \<lparr>protoProps = op', fnProps = fns st\<rparr>)
             | Inr op' \<Rightarrow> Inr (st\<lparr>proto := op'\<rparr>))
          else if tag \<in> set inherited_names then
            (case fold_err (fn_val strict (proto st) tag) lastVals (fns st) of
               Inl (e, fk) \<Rightarrow> Inl (e, \<lparr>protoProps = proto st, fnProps = fk\<rparr>)
             | Inr fk \<Rightarrow>
                 Inr (st\<lparr>res := put tag (join '', '' lastVals) (res st), fns := fk\<rparr>))
          else Inr st)"

text \<open>
  The body of \<^verbatim>\<open>lines.slice(1).forEach(line => ...)\<close>: a blank line is skipped; on a
  recognised tag the values are counted in the tag's own bucket and digit maps and the
  display string is set.
\<close>

definition parse_line :: "bool \<Rightarrow> string \<Rightarrow> parse_state \<Rightarrow> (error \<times> realm) + parse_state" where
  "parse_line strict line st =
     (if trim line = [] then Inr st
      else
        (case split_ws (trim line) of
           [] \<Rightarrow> Inr st
         | tag # rest \<Rightarrow>
             (let nums = filter (\<lambda>n. n \<noteq> []) rest;
                  lastVals = map (last_chars (fixed_len tag)) nums
              in case map_of (prizes st) tag of
                   Some bucket \<Rightarrow>
                     (case map_of (digits st) tag of
                        None \<Rightarrow> Inl (Unmodelled, realm_of st)
                      | Some pods \<Rightarrow>
                          (case fold_err (own_val (proto st)) lastVals (bucket, pods) of
                             Inl e \<Rightarrow> Inl (e, realm_of st)
                           | Inr bp \<Rightarrow>
                               Inr (st\<lparr>prizes := put tag (fst bp) (prizes st),
                                       digits := put tag (snd bp) (digits st),
                                       res := put tag (join '', '' lastVals) (res st)\<rparr>)))
                 | None \<Rightarrow> foreign_line strict tag lastVals st)))"

text \<open>
  The whole function, from the realm \<open>r\<close> it is called in: its outcome, a thrown error or
  the returned aggregate, and the realm it leaves. The argument \<^verbatim>\<open>dateStr\<close> is
  \<open>dateKey\<close> here.
\<close>

definition parse_start :: "realm \<Rightarrow> parse_state" where
  "parse_start r =
     \<lparr>prizes = map (\<lambda>p. (p, [])) PRIZE_LIST,
      digits = map (\<lambda>p. (p, replicate (fixed_len p) [])) PRIZE_LIST,
      res = [],
      proto = protoProps r,
      fns = fnProps r\<rparr>"

definition parseTextToAggregate ::
  "bool \<Rightarrow> realm \<Rightarrow> string \<Rightarrow> string \<Rightarrow> (error + aggregate) \<times> realm" where
  "parseTextToAggregate strict r dateKey text =
     (case fold_err (parse_line strict) (drop 1 (split_lines text)) (parse_start r) of
        Inl (e, r') \<Rightarrow> (Inl e, r')
      | Inr st \<Rightarrow>
          (Inr \<lparr>aggDateStr = dateKey, prizesAgg = prizes st, digitAgg = digits st,
                results = res st\<rparr>,
           realm_of st))"

text \<open>
  What the claims about the parser speak of. The first token of a line, its non-empty
  tokens after the first and its values after truncation, as \<open>parse_line\<close> computes them;
  the last line that carries a tag; the display string of that line; all tokens and all
  values of a tag in the file, in order; and the aggregate a call returned, if it returned
  one.
\<close>

definition line_tag :: "string \<Rightarrow> string option" where
  "line_tag line =
     (if trim line = [] then None
      else (case split_ws (trim line) of [] \<Rightarrow> None | tag # rest \<Rightarrow> Some tag))"


definition line_vals :: "string \<Rightarrow> string list" where
  "line_vals line =
     (case split_ws (trim line) of
        [] \<Rightarrow> []
      | tag # rest \<Rightarrow> map (last_chars (fixed_len tag)) (filter (\<lambda>n. n \<noteq> []) rest))"

definition last_tagged :: "string \<Rightarrow> string list \<Rightarrow> string option" where
  "last_tagged tag ls =
     (case filter (\<lambda>l. line_tag l = Some tag) ls of [] \<Rightarrow> None | x # xs \<Rightarrow> Some (last (x # xs)))"

definition display_of :: "string \<Rightarrow> string list \<Rightarrow> string option" where
  "display_of tag ls = map_option (\<lambda>l. join '', '' (line_vals l)) (last_tagged tag ls)"


definition all_vals :: "string \<Rightarrow> string list \<Rightarrow> string list" where
  "all_vals tag ls = concat (map line_vals (filter (\<lambda>l. line_tag l = Some tag) ls))"

definition returned :: "(error + aggregate) \<times> realm \<Rightarrow> aggregate option" where
  "returned r = (case fst r of Inl e \<Rightarrow> None | Inr agg \<Rightarrow> Some agg)"

text \<open>Every recorded value is non-empty and no longer than its category's length.\<close>

definition values_bounded :: "(string \<times> (string \<times> nat) list) list \<Rightarrow> bool" where
  "values_bounded ps =
     (\<forall>(tag, bucket) \<in> set ps. \<forall>val \<in> fst ` set bucket. 1 \<le> length val \<and> length val \<le> fixed_len tag)"

text \<open>Sample files. \<open>LF\<close> is the line feed.\<close>

definition LF :: string where
  "LF = [CHR 0x0A]"


definition short_value_agg :: aggregate where
  "short_value_agg =
     \<lparr>aggDateStr = ''2020-01-16'',
      prizesAgg =
        [(''FIRST'', [(''123'', 1)]), (''SECOND'', []), (''THIRD'', []), (''FOURTH'', []),
         (''FIFTH'', []), (''TWO'', []), (''THREE_FIRST'', []), (''THREE_LAST'', []),
         (''NEAR_FIRST'', [])],
      digitAgg =
        [(''FIRST'', [[(CHR ''1'', 1)], [(CHR ''2'', 1)], [(CHR ''3'', 1)], [], [], []]),
         (''SECOND'', [[], [], [], [], [], []]), (''THIRD'', [[], [], [], [], [], []]),
         (''FOURTH'', [[], [], [], [], [], []]), (''FIFTH'', [[], [], [], [], [], []]),
         (''TWO'', [[], []]), (''THREE_FIRST'', [[], [], []]), (''THREE_LAST'', [[], [], []]),
         (''NEAR_FIRST'', [[], [], [], [], [], []])],
      results = [(''FIRST'', ''123'')]\<rparr>"



definition two_first_lines :: string where
  "two_first_lines = ''header'' @ LF @ ''FIRST 111111'' @ LF @ ''FIRST 222222''"

definition two_first_agg :: aggregate where
  "two_first_agg =
     \<lparr>aggDateStr = ''2020-01-16'',
      prizesAgg =
        [(''FIRST'', [(''111111'', 1), (''222222'', 1)]), (''SECOND'', []), (''THIRD'', []),
         (''FOURTH'', []), (''FIFTH'', []), (''TWO'', []), (''THREE_FIRST'', []),
         (''THREE_LAST'', []), (''NEAR_FIRST'', [])],
      digitAgg =
        [(''FIRST'',
          [[(CHR ''1'', 1), (CHR ''2'', 1)], [(CHR ''1'', 1), (CHR ''2'', 1)],
           [(CHR ''1'', 1), (CHR ''2'', 1)], [(CHR ''1'', 1), (CHR ''2'', 1)],
           [(CHR ''1'', 1), (CHR ''2'', 1)], [(CHR ''1'', 1), (CHR ''2'', 1)]]),
         (''SECOND'', [[], [], [], [], [], []]), (''THIRD'', [[], [], [], [], [], []]),
         (''FOURTH'', [[], [], [], [], [], []]), (''FIFTH'', [[], [], [], [], [], []]),
         (''TWO'', [[], []]), (''THREE_FIRST'', [[], [], []]), (''THREE_LAST'', [[], [], []]),
         (''NEAR_FIRST'', [[], [], [], [], [], []])],
      results = [(''FIRST'', ''222222'')]\<rparr>"

definition proto_tag_text :: string where
  "proto_tag_text = ''header'' @ LF @ ''__proto__ 1''"

definition polluting_text :: string where
  "polluting_text = ''header'' @ LF @ ''__proto__ 0'' @ LF @ ''FIRST 0''"

definition function_tag_text :: string where
  "function_tag_text = ''header'' @ LF @ ''FIRST 123'' @ LF @ ''constructor 0''"

definition function_tag_agg :: aggregate where
  "function_tag_agg = short_value_agg\<lparr>results := [(''FIRST'', ''123''), (''constructor'', ''0'')]\<rparr>"

definition undefined_index_text :: string where
  "undefined_index_text = ''header'' @ LF @ ''constructor 1''"

section \<open>Merge Engine\<close>

text \<open>
  \<^verbatim>\<open>combineAggregatesForDates(selectedDateStrs, perFileAggMapLocal)\<close> with the globals
  \<^verbatim>\<open>counts\<close>, \<^verbatim>\<open>digitCounts\<close> and \<^verbatim>\<open>resultsByDate\<close> it rebuilds. The loop variable \<^verbatim>\<open>dateStr\<close> is \<open>dateKey\<close> here.
\<close>

record bucketEntry =
  count :: nat
  dates :: "string list"

record merged =
  counts :: "(string \<times> (string \<times> bucketEntry) list) list"
  digitCounts :: "(string \<times> (char \<times> nat) list list) list"
  resultsByDate :: "(string \<times> (string \<times> string) list) list"

definition resetCounts :: merged where
  "resetCounts =
     \<lparr>counts = map (\<lambda>p. (p, [])) PRIZE_LIST,
      digitCounts = map (\<lambda>p. (p, replicate (fixed_len p) [])) PRIZE_LIST,
      resultsByDate = []\<rparr>"

definition MAX_DATES_RECORD :: nat where
  "MAX_DATES_RECORD = 50"

text \<open>\<^verbatim>\<open>e.count += cnt; if (e.dates.length < MAX_DATES_RECORD) e.dates.push(dateStr)\<close>\<close>

definition bump :: "string \<Rightarrow> nat \<Rightarrow> bucketEntry \<Rightarrow> bucketEntry" where
  "bump dateKey cnt e =
     \<lparr>count = count e + cnt,
      dates = (if length (dates e) < MAX_DATES_RECORD then dates e @ [dateKey] else dates e)\<rparr>"

text \<open>
  The body of the loop over \<^verbatim>\<open>Object.entries(prizeMap)\<close>. In
  \<^verbatim>\<open>bucket[val] = bucket[val] || { count: 0, dates: [] }\<close> a value that is not yet an own
  key of the bucket but names an inherited property reads that built-in object instead of
  \<^verbatim>\<open>undefined\<close>; it has no \<^verbatim>\<open>dates\<close>, and \<^verbatim>\<open>.dates.length\<close> throws.
\<close>

definition record_value :: "string \<Rightarrow> string \<times> nat \<Rightarrow> (string \<times> bucketEntry) list
    \<Rightarrow> error + (string \<times> bucketEntry) list" where
  "record_value dateKey vc bucket =
     (case vc of (val, cnt) \<Rightarrow>
        (case map_of bucket val of
           Some e \<Rightarrow> Inr (put val (bump dateKey cnt e) bucket)
         | None \<Rightarrow>
             if val \<in> set inherited_names then Inl TypeError
             else Inr (put val (bump dateKey cnt \<lparr>count = 0, dates = []\<rparr>) bucket)))"

text \<open>\<^verbatim>\<open>for (const [dig, c] of Object.entries(pod)) dest[dig] = (dest[dig] || 0) + c\<close>\<close>

definition add_digit :: "char \<times> nat \<Rightarrow> (char \<times> nat) list \<Rightarrow> (char \<times> nat) list" where
  "add_digit dc dest =
     (case dc of (dig, c) \<Rightarrow>
        put dig ((case map_of dest dig of None \<Rightarrow> 0 | Some n \<Rightarrow> n) + c) dest)"

definition merge_pod :: "(char \<times> nat) list \<Rightarrow> (char \<times> nat) list \<Rightarrow> (char \<times> nat) list" where
  "merge_pod pod dest = fold add_digit (entries pod) dest"

text \<open>
  \<^verbatim>\<open>pods.forEach((pod, i) => { const dest = digitCounts[prize][i]; ... })\<close>: past the end
  of the array \<open>dest\<close> is \<^verbatim>\<open>undefined\<close>, and the first assignment to it throws.
\<close>

fun merge_pods :: "(char \<times> nat) list list \<Rightarrow> nat \<Rightarrow> (char \<times> nat) list list
    \<Rightarrow> error + (char \<times> nat) list list" where
  "merge_pods [] i ds = Inr ds"
| "merge_pods (pod # pods) i ds =
     (if entries pod = [] then merge_pods pods (Suc i) ds
      else if i < length ds then merge_pods pods (Suc i) (ds[i := merge_pod pod (ds ! i)])
      else Inl TypeError)"

text \<open>The body of \<^verbatim>\<open>for (const prize of PRIZE_LIST)\<close>.\<close>

definition combine_prize :: "string \<Rightarrow> aggregate \<Rightarrow> string \<Rightarrow> merged \<Rightarrow> error + merged" where
  "combine_prize dateKey agg prize st =
     (let prizeMap = (case map_of (prizesAgg agg) prize of None \<Rightarrow> [] | Some m \<Rightarrow> m);
          pods = (case map_of (digitAgg agg) prize of None \<Rightarrow> [] | Some ps \<Rightarrow> ps)
      in case map_of (counts st) prize of
           None \<Rightarrow> Inl TypeError
         | Some bucket \<Rightarrow>
             (case fold_err (record_value dateKey) (entries prizeMap) bucket of
                Inl e \<Rightarrow> Inl e
              | Inr bucket' \<Rightarrow>
                  (case map_of (digitCounts st) prize of
                     None \<Rightarrow> Inl TypeError
                   | Some dest \<Rightarrow>
                       (case merge_pods pods 0 dest of
                          Inl e \<Rightarrow> Inl e
                        | Inr dest' \<Rightarrow>
                            Inr (st\<lparr>counts := put prize bucket' (counts st),
                                    digitCounts := put prize dest' (digitCounts st)\<rparr>)))))"

text \<open>The body of \<^verbatim>\<open>for (const dateStr of selectedDateStrs)\<close>.\<close>

definition combine_date :: "(string \<times> aggregate) list \<Rightarrow> string \<Rightarrow> merged \<Rightarrow> error + merged" where
  "combine_date perFileAggMapLocal dateKey st =
     (case map_of perFileAggMapLocal dateKey of
        None \<Rightarrow> Inr st
      | Some agg \<Rightarrow>
          (case fold_err (combine_prize dateKey agg) PRIZE_LIST st of
             Inl e \<Rightarrow> Inl e
           | Inr st' \<Rightarrow>
               Inr (st'\<lparr>resultsByDate := put dateKey (results agg) (resultsByDate st')\<rparr>)))"

definition combineAggregatesForDates ::
  "string list \<Rightarrow> (string \<times> aggregate) list \<Rightarrow> error + merged" where
  "combineAggregatesForDates selectedDateStrs perFileAggMapLocal =
     fold_err (combine_date perFileAggMapLocal) selectedDateStrs resetCounts"

text \<open>What the claims speak of: a value's count in one file, and its merged entry.\<close>

definition value_count :: "aggregate \<Rightarrow> string \<Rightarrow> string \<Rightarrow> nat option" where
  "value_count agg prize val =
     (case map_of (prizesAgg agg) prize of None \<Rightarrow> None | Some m \<Rightarrow> map_of m val)"

definition file_count :: "(string \<times> aggregate) list \<Rightarrow> string \<Rightarrow> string \<Rightarrow> string \<Rightarrow> nat" where
  "file_count store prize val d =
     (case map_of store d of
        None \<Rightarrow> 0
      | Some agg \<Rightarrow> (case value_count agg prize val of None \<Rightarrow> 0 | Some c \<Rightarrow> c))"

definition file_contains :: "(string \<times> aggregate) list \<Rightarrow> string \<Rightarrow> string \<Rightarrow> string \<Rightarrow> bool" where
  "file_contains store prize val d =
     (case map_of store d of
        None \<Rightarrow> False
      | Some agg \<Rightarrow> value_count agg prize val \<noteq> None)"

definition merged_entry :: "merged \<Rightarrow> string \<Rightarrow> string \<Rightarrow> bucketEntry option" where
  "merged_entry m prize val =
     (case map_of (counts m) prize of None \<Rightarrow> None | Some b \<Rightarrow> map_of b val)"

definition total_count :: "merged \<Rightarrow> string \<Rightarrow> string \<Rightarrow> nat" where
  "total_count m prize val =
     (case merged_entry m prize val of None \<Rightarrow> 0 | Some e \<Rightarrow> count e)"

definition contributing_dates :: "merged \<Rightarrow> string \<Rightarrow> string \<Rightarrow> string list" where
  "contributing_dates m prize val =
     (case merged_entry m prize val of None \<Rightarrow> [] | Some e \<Rightarrow> dates e)"

text \<open>
  A stored aggregate as the parser shapes it: in every category a value is at most as long as
  the category's length, and there are at most that many digit positions.
\<close>

definition wf_agg :: "aggregate \<Rightarrow> bool" where
  "wf_agg agg =
     (\<forall>prize \<in> set PRIZE_LIST.
        (case map_of (prizesAgg agg) prize of
           None \<Rightarrow> True
         | Some m \<Rightarrow> (\<forall>val \<in> fst ` set m. length val \<le> fixed_len prize))
        \<and> (case map_of (digitAgg agg) prize of
             None \<Rightarrow> True
           | Some ps \<Rightarrow> length ps \<le> fixed_len prize))"

definition wf_store :: "(string \<times> aggregate) list \<Rightarrow> bool" where
  "wf_store store = (\<forall>agg \<in> snd ` set store. wf_agg agg)"

text \<open>
  The merged entry of one (category, value) pair, followed through the loops: what one
  file and one date do to it. \<open>None\<close> is a value that has no entry yet.
\<close>

definition entry_or_empty :: "bucketEntry option \<Rightarrow> bucketEntry" where
  "entry_or_empty eo = (case eo of None \<Rightarrow> \<lparr>count = 0, dates = []\<rparr> | Some e \<Rightarrow> e)"

definition entry_step :: "string \<Rightarrow> aggregate \<Rightarrow> string \<Rightarrow> string \<Rightarrow> bucketEntry option \<Rightarrow> bucketEntry option" where
  "entry_step d agg prize val eo =
     (case value_count agg prize val of
        None \<Rightarrow> eo
      | Some c \<Rightarrow> Some (bump d c (entry_or_empty eo)))"

definition date_step :: "(string \<times> aggregate) list \<Rightarrow> string \<Rightarrow> string \<Rightarrow> string \<Rightarrow> bucketEntry option \<Rightarrow> bucketEntry option" where
  "date_step store prize val d eo =
     (case map_of store d of None \<Rightarrow> eo | Some agg \<Rightarrow> entry_step d agg prize val eo)"

text \<open>
  What \<^verbatim>\<open>resetCounts()\<close> establishes and the loops keep: every category has its bucket
  and its array of digit positions.
\<close>

definition counts_ready :: "merged \<Rightarrow> bool" where
  "counts_ready st =
     (\<forall>p \<in> set PRIZE_LIST.
        map_of (counts st) p \<noteq> None
        \<and> (case map_of (digitCounts st) p of None \<Rightarrow> False | Some ds \<Rightarrow> length ds = fixed_len p))"

section \<open>CSV export\<close>

text \<open>
  The click handler of the CSV page (\<^verbatim>\<open>showCsvBtn\<close>), from the store it has read from the
  cache. \<open>dateOf\<close> is the built-in \<^verbatim>\<open>new Date(d + 'T00:00')\<close>, the time value of a date
  key; \<^verbatim>\<open>sort\<close> is stable. The loop variable \<^verbatim>\<open>dateStr\<close> is \<open>dateKey\<close> here.
\<close>

text \<open>\<^verbatim>\<open>s.split(',')\<close> for a one-character separator.\<close>

fun split_on_from :: "char \<Rightarrow> string \<Rightarrow> string \<Rightarrow> string list" where
  "split_on_from sep cur [] = [rev cur]"
| "split_on_from sep cur (c # cs) =
     (if c = sep then rev cur # split_on_from sep [] cs else split_on_from sep (c # cur) cs)"

definition split_on :: "char \<Rightarrow> string \<Rightarrow> string list" where
  "split_on sep s = split_on_from sep [] s"

text \<open>\<^verbatim>\<open>numbersStr.split(',').map(n => n.trim()).filter(n => n)\<close>\<close>

definition csv_numbers :: "string \<Rightarrow> string list" where
  "csv_numbers numbersStr = filter (\<lambda>n. n \<noteq> []) (map trim (split_on (CHR '','') numbersStr))"

text \<open>
  The body of \<^verbatim>\<open>for (const { dateStr } of dateMap)\<close>. An empty display string is falsy.
  A \<open>prize\<close> that named an inherited property would read a built-in object, which has no
  \<^verbatim>\<open>split\<close>.
\<close>

definition csv_date :: "(string \<times> aggregate) list \<Rightarrow> string \<Rightarrow> string \<Rightarrow> string list
    \<Rightarrow> error + string list" where
  "csv_date perFileAggMap prize dateKey csv =
     (case map_of perFileAggMap dateKey of
        None \<Rightarrow> Inr csv
      | Some agg \<Rightarrow>
          (case map_of (results agg) prize of
             Some numbersStr \<Rightarrow>
               if numbersStr = [] then Inr csv
               else Inr (csv @ map (\<lambda>num. num @ '','' @ dateKey) (csv_numbers numbersStr))
           | None \<Rightarrow> if prize \<in> set inherited_names then Inl TypeError else Inr csv))"

definition csv_lines :: "(string \<Rightarrow> int) \<Rightarrow> string \<Rightarrow> (string \<times> aggregate) list
    \<Rightarrow> error + string list" where
  "csv_lines dateOf prize perFileAggMap =
     fold_err (csv_date perFileAggMap prize) (sort_key dateOf (map fst perFileAggMap)) []"

text \<open>
  What the handler shows: nothing new when no category is chosen or the store is empty,
  else the lines joined by line feeds, or a notice when there is none.
\<close>

definition showCsv :: "(string \<Rightarrow> int) \<Rightarrow> string \<Rightarrow> (string \<times> aggregate) list
    \<Rightarrow> error + string option" where
  "showCsv dateOf prize perFileAggMap =
     (if prize = [] \<or> perFileAggMap = [] then Inr None
      else (case csv_lines dateOf prize perFileAggMap of
              Inl e \<Rightarrow> Inl e
            | Inr csv \<Rightarrow>
                Inr (Some (if csv = [] then ''No data available for this prize type.''
                           else join [CHR 0x0A] csv))))"

text \<open>
  The values the export can show for a file: those of the last line that carries the
  category's tag.
\<close>

definition exported_vals :: "string \<Rightarrow> string \<Rightarrow> string list" where
  "exported_vals prize text =
     (case last_tagged prize (drop 1 (split_lines text)) of None \<Rightarrow> [] | Some l \<Rightarrow> line_vals l)"

text \<open>
  Two files for the export, stored newest first, with the order of their dates.
\<close>

definition sample_source :: "string \<Rightarrow> string" where
  "sample_source d =
     (if d = ''2020-01-16'' then ''header'' @ LF @ ''TWO 12 34''
      else ''header'' @ LF @ ''TWO 56'')"

definition sample_parsed :: "string \<Rightarrow> aggregate" where
  "sample_parsed d = the (returned (parseTextToAggregate False fresh_realm d (sample_source d)))"

definition sample_store :: "(string \<times> aggregate) list" where
  "sample_store =
     [(''2020-02-01'', sample_parsed ''2020-02-01''),
      (''2020-01-16'', sample_parsed ''2020-01-16'')]"

definition sample_dateOf :: "string \<Rightarrow> int" where
  "sample_dateOf d = (if d = ''2020-01-16'' then 18277 else 18293) * 86400000"

text \<open>
  Three files with overlapping two-digit values, and a store of 51 files that all hold the
  value 12 once (the 1st and 16th of 51 consecutive half-months).
\<close>

definition two_agg :: "string \<Rightarrow> (string \<times> nat) list \<Rightarrow> aggregate" where
  "two_agg d m =
     \<lparr>aggDateStr = d, prizesAgg = [(''TWO'', m)], digitAgg = [(''TWO'', [[], []])],
      results = []\<rparr>"

definition three_files :: "(string \<times> aggregate) list" where
  "three_files =
     [(''2020-01-16'', two_agg ''2020-01-16'' [(''12'', 1), (''34'', 1)]),
      (''2020-02-01'', two_agg ''2020-02-01'' [(''12'', 2)]),
      (''2020-02-16'', two_agg ''2020-02-16'' [(''34'', 1), (''56'', 1)])]"

definition many_dates :: "string list" where
  "many_dates =
     take 51 (concat (map (\<lambda>y. concat (map (\<lambda>m.
        map (\<lambda>d. y @ ''-'' @ pad2 m @ ''-'' @ pad2 d) [1, 16]) [1 ..< 13]))
        [''2007'', ''2008'', ''2009'']))"

definition many_files :: "(string \<times> aggregate) list" where
  "many_files = map (\<lambda>d. (d, two_agg d [(''12'', 1)])) many_dates"

text \<open>A snapshot stamped at time 500 that holds one date, and two candidates.\<close>

definition sample_snapshot :: "bool snapshot" where
  "sample_snapshot = \<lparr>fetchedAt = 500, data = Some [(''2007-01-16'', True)]\<rparr>"

definition sample_candidates :: "candidate list" where
  "sample_candidates = map mk_candidate [(2007, 1, 16), (2007, 1, 17)]"

section \<open>Properties of the Date Selector\<close>

text \<open>
  C1. Years or months mode, anchoring enabled, window 0: the claim selects every known date
  from the epoch forward. The code keeps the upper bound \<^verbatim>\<open>x.date <= end\<close> with
  \<open>end\<close> left at the epoch, so of the two draws above only the epoch's own is selected,
  in both modes.
\<close>

theorem C1_anchored_zero_window_selects_epoch_only:
  "computeSelectedDatesFromMode cal (anchored_zero ''years'') two_draws = [''2006-12-30'']
   \<and> computeSelectedDatesFromMode cal (anchored_zero ''months'') two_draws = [''2006-12-30'']
   \<and> map dateStr (filter (\<lambda>x. date x \<ge> FIXED_START) two_draws)
       = [''2006-12-30'', ''2007-01-16'']"
  by (simp add: computeSelectedDatesFromMode_def anchored_zero_def two_draws_def
      or_default_def add_all_def set_add_def FIXED_START_def)

section \<open>Properties of the Candidate Enumerator\<close>

lemma candidate_days_iff:
  "(y, m, d) \<in> set (candidate_days thisYear) \<longleftrightarrow>
     2006 \<le> y \<and> y \<le> thisYear \<and> 1 \<le> m \<and> m \<le> 12 \<and> d \<in> set DRAW_DAYS
     \<and> \<not> (y = 2006 \<and> m = 12 \<and> d < 30)"
  unfolding candidate_days_def by (simp add: image_iff) (use le_less_Suc_eq in force)

text \<open>
  C4. The claim says that the candidates are the allow-listed calendar dates from the epoch
  2006-12-30 through the current date. The guard
  \<^verbatim>\<open>if (y === 2006 && m === 12 && d < 30) continue\<close> skips the days before the epoch in
  December 2006 only, while the loop starts at January 2006: every allow-listed day of
  January to November 2006 is pushed as a candidate, whatever the current date is.
\<close>

theorem C4_candidates_before_the_epoch:
  "2006 \<le> thisYear \<Longrightarrow> 1 \<le> m \<Longrightarrow> m \<le> 11 \<Longrightarrow> d \<in> set DRAW_DAYS \<Longrightarrow>
     (2006, m, d) \<in> set (candidate_days thisYear)
     \<and> mk_candidate (2006, m, d) \<in> set (buildCandidateUrls thisYear)
     \<and> \<not> date_le (2006, 12, 30) (2006, m, d)
     \<and> \<not> claimed_candidate today (2006, m, d)"
  by (auto simp: candidate_days_iff buildCandidateUrls_def claimed_candidate_def date_le_def)

theorem C4_candidates_before_the_epoch_witness:
  "(2006::nat) \<le> 2007 \<and> (1::nat) \<le> 1 \<and> (1::nat) \<le> 11 \<and> 30 \<in> set DRAW_DAYS
   \<and> (2006, 1, 30) \<in> set (candidate_days 2007)
   \<and> mk_candidate (2006, 1, 30)
       = \<lparr>candDateStr = ''2006-01-30'', url = ''lottonumbers/2006-01-30.txt''\<rparr>
   \<and> \<not> date_le (2006, 12, 30) (2006, 1, 30)
   \<and> \<not> claimed_candidate (2007, 1, 10) (2006, 1, 30)"
  using C4_candidates_before_the_epoch [of 2007 1 30 "(2007, 1, 10)"]
  by (simp add: DRAW_DAYS_def mk_candidate_def pad2_def padStart2_def toString.simps digit_def)

text \<open>
  Nor does the enumerator stop at the current date: it walks every month of the current
  year, so on 2007-01-10 it already lists 2007-12-17.
\<close>

theorem C4_future_candidate_counterexample:
  "(2007, 12, 17) \<in> set (candidate_days 2007)
   \<and> mk_candidate (2007, 12, 17)
       = \<lparr>candDateStr = ''2007-12-17'', url = ''lottonumbers/2007-12-17.txt''\<rparr>
   \<and> \<not> claimed_candidate (2007, 1, 10) (2007, 12, 17)"
  by (simp add: candidate_days_iff DRAW_DAYS_def claimed_candidate_def date_le_def
      mk_candidate_def pad2_def padStart2_def toString.simps digit_def)

section \<open>Properties of the fetch planning\<close>

lemma filter_drop_take_set:
  "set (filter P (drop n xs) @ filter P (take n xs)) = {x \<in> set xs. P x}"
proof -
  have "set (drop n xs) \<union> set (take n xs) = set xs"
    by (metis append_take_drop_id set_append sup_commute)
  then show ?thesis by auto
qed

lemma set_batch_requests:
  "0 < concurrency \<Longrightarrow> set (batch_requests concurrency us) = url ` set us"
  by (cases us) (auto simp: batch_requests_def min_def)

lemma set_issued_requests:
  "0 < concurrency \<Longrightarrow>
     set (issued_requests concurrency p) = url ` set (recentToFetch p @ olderToFetch p)"
  by (auto simp: issued_requests_def set_batch_requests)

lemma has_empty: "\<not> has [] k"
  by (simp add: has_def)

text \<open>
  C7. A snapshot stamped within the last 24 hours becomes the store, and requests are issued
  exactly for the candidates whose date is not in it; with no snapshot, or one that is 24
  hours old or older, the store stays empty (as it is at start-up) and every candidate is
  requested.
\<close>

theorem C7_fresh_cache_skips_known_dates:
  "(cached = Some c \<and> data c = Some d \<and> 0 < fetchedAt c \<and> fetchedAt c \<le> nowMs
      \<and> nowMs - fetchedAt c < CACHE_TTL_MS \<and> 0 < concurrency
    \<longrightarrow> planStore (fetch_plan nowMs cached [] recentLimit candidates) = d
        \<and> set (issued_requests concurrency (fetch_plan nowMs cached [] recentLimit candidates))
            = url ` {x \<in> set candidates. \<not> has d (candDateStr x)})
   \<and> ((cached = None \<or> (cached = Some c \<and> nowMs - fetchedAt c \<ge> CACHE_TTL_MS))
        \<and> 0 < concurrency
    \<longrightarrow> planStore (fetch_plan nowMs cached [] recentLimit candidates) = []
        \<and> olderToFetch (fetch_plan nowMs cached [] recentLimit candidates)
            @ recentToFetch (fetch_plan nowMs cached [] recentLimit candidates) = candidates
        \<and> set (issued_requests concurrency (fetch_plan nowMs cached [] recentLimit candidates))
            = url ` set candidates)"
proof (intro conjI impI)
  assume fresh: "cached = Some c \<and> data c = Some d \<and> 0 < fetchedAt c \<and> fetchedAt c \<le> nowMs
      \<and> nowMs - fetchedAt c < CACHE_TTL_MS \<and> 0 < concurrency"
  then have store: "load_store nowMs cached [] = d"
    by (simp add: load_store_def)
  show "planStore (fetch_plan nowMs cached [] recentLimit candidates) = d"
    by (simp add: fetch_plan_def Let_def store)
  from fresh have conc: "0 < concurrency" by simp
  have "set (issued_requests concurrency (fetch_plan nowMs cached [] recentLimit candidates))
        = url ` set (filter (\<lambda>x. \<not> has d (candDateStr x)) (drop (length candidates - recentLimit) candidates)
                     @ filter (\<lambda>x. \<not> has d (candDateStr x)) (take (length candidates - recentLimit) candidates))"
    using conc by (simp add: set_issued_requests fetch_plan_def Let_def store)
  then show "set (issued_requests concurrency (fetch_plan nowMs cached [] recentLimit candidates))
            = url ` {x \<in> set candidates. \<not> has d (candDateStr x)}"
    by (simp only: filter_drop_take_set)
next
  assume stale: "(cached = None \<or> (cached = Some c \<and> nowMs - fetchedAt c \<ge> CACHE_TTL_MS))
        \<and> 0 < concurrency"
  then have store: "load_store nowMs cached [] = []"
    by (auto simp: load_store_def split: option.splits)
  show "planStore (fetch_plan nowMs cached [] recentLimit candidates) = []"
    by (simp add: fetch_plan_def Let_def store)
  show "olderToFetch (fetch_plan nowMs cached [] recentLimit candidates)
            @ recentToFetch (fetch_plan nowMs cached [] recentLimit candidates) = candidates"
    by (simp add: fetch_plan_def Let_def store has_empty)
  from stale have conc: "0 < concurrency" by simp
  have "set (issued_requests concurrency (fetch_plan nowMs cached [] recentLimit candidates))
        = url ` set (filter (\<lambda>x. True) (drop (length candidates - recentLimit) candidates)
                     @ filter (\<lambda>x. True) (take (length candidates - recentLimit) candidates))"
    using conc by (simp add: set_issued_requests fetch_plan_def Let_def store has_empty)
  then show "set (issued_requests concurrency (fetch_plan nowMs cached [] recentLimit candidates))
            = url ` set candidates"
    by (simp only: filter_drop_take_set) simp
qed

theorem C7_fresh_cache_skips_known_dates_witness:
  "planStore (fetch_plan 1000 (Some sample_snapshot) [] 150 sample_candidates)
     = [(''2007-01-16'', True)]
   \<and> set (issued_requests 30 (fetch_plan 1000 (Some sample_snapshot) [] 150 sample_candidates))
     = url ` {x \<in> set sample_candidates. \<not> has [(''2007-01-16'', True)] (candDateStr x)}
   \<and> planStore (fetch_plan (500 + CACHE_TTL_MS) (Some sample_snapshot) [] 150 sample_candidates)
     = []
   \<and> set (issued_requests 30
        (fetch_plan (500 + CACHE_TTL_MS) (Some sample_snapshot) [] 150 sample_candidates))
     = url ` set sample_candidates"
proof -
  have fresh: "Some sample_snapshot = Some sample_snapshot
      \<and> data sample_snapshot = Some [(''2007-01-16'', True)]
      \<and> 0 < fetchedAt sample_snapshot \<and> fetchedAt sample_snapshot \<le> 1000
      \<and> 1000 - fetchedAt sample_snapshot < CACHE_TTL_MS \<and> 0 < (30::nat)"
    by (simp add: sample_snapshot_def CACHE_TTL_MS_def)
  have stale: "(Some sample_snapshot = None
        \<or> (Some sample_snapshot = Some sample_snapshot
            \<and> 500 + CACHE_TTL_MS - fetchedAt sample_snapshot \<ge> CACHE_TTL_MS))
      \<and> 0 < (30::nat)"
    by (simp add: sample_snapshot_def)
  note a = C7_fresh_cache_skips_known_dates
      [where cached = "Some sample_snapshot" and c = sample_snapshot
         and d = "[(''2007-01-16'', True)]" and nowMs = 1000 and concurrency = 30
         and recentLimit = 150 and candidates = sample_candidates,
       THEN conjunct1, THEN mp, OF fresh]
  note b = C7_fresh_cache_skips_known_dates
      [where cached = "Some sample_snapshot" and c = sample_snapshot
         and nowMs = "500 + CACHE_TTL_MS" and concurrency = 30
         and recentLimit = 150 and candidates = sample_candidates,
       THEN conjunct2, THEN mp, OF stale]
  from a b show ?thesis by blast
qed

section \<open>Properties of the Merge Engine\<close>

lemma map_of_put: "map_of (put k v al) = (map_of al)(k \<mapsto> v)"
  by (induction al) (auto simp: fun_eq_iff)

lemma map_of_entries: "map_of (entries al) = map_of al"
proof
  fix k
  show "map_of (entries al) k = map_of al k"
  proof (cases "k \<in> fst ` set al")
    case True
    then obtain v where "map_of al k = Some v"
      by (metis domD dom_map_of_conv_image_fst)
    with True show ?thesis
      by (simp add: entries_def map_of_map_restrict)
  next
    case False
    then have "map_of al k = None"
      by (simp add: map_of_eq_None_iff)
    with False show ?thesis
      by (simp add: entries_def map_of_map_restrict)
  qed
qed

lemma distinct_entries: "distinct (map fst (entries al))"
  by (simp add: entries_def comp_def)

lemma keys_entries: "fst ` set (entries al) = fst ` set al"
  by (simp add: entries_def image_image)

lemma record_value_lookup:
  "record_value d (v, c) b = Inr b' \<Longrightarrow>
     map_of b' = (map_of b)(v \<mapsto> bump d c (entry_or_empty (map_of b v)))"
  by (auto simp: record_value_def map_of_put entry_or_empty_def split: option.splits if_splits)

lemma record_value_total:
  "v \<notin> set inherited_names \<Longrightarrow> \<exists>b'. record_value d (v, c) b = Inr b'"
  by (simp add: record_value_def split: option.splits)

lemma fold_record_value_lookup:
  "distinct (map fst es) \<Longrightarrow> fold_err (record_value d) es b = Inr b' \<Longrightarrow>
     map_of b' val =
       (case map_of es val of
          None \<Rightarrow> map_of b val
        | Some c \<Rightarrow> Some (bump d c (entry_or_empty (map_of b val))))"
proof (induction es arbitrary: b)
  case Nil
  then show ?case by simp
next
  case (Cons vc es)
  obtain v c where vc: "vc = (v, c)" by (cases vc)
  from Cons.prems(2) vc obtain b1 where
    b1: "record_value d (v, c) b = Inr b1" and rest: "fold_err (record_value d) es b1 = Inr b'"
    by (auto split: sum.splits)
  from Cons.prems(1) vc have dist: "distinct (map fst es)" and fresh: "v \<notin> fst ` set es"
    by auto
  note step = record_value_lookup [OF b1]
  note ih = Cons.IH [OF dist rest]
  show ?case
  proof (cases "val = v")
    case True
    with fresh have "map_of es val = None"
      by (simp add: map_of_eq_None_iff)
    with ih step True vc show ?thesis by simp
  next
    case False
    with step have "map_of b1 val = map_of b val" by simp
    with ih False vc show ?thesis by (simp split: option.splits)
  qed
qed

lemma fold_record_value_total:
  "\<forall>v \<in> fst ` set es. v \<notin> set inherited_names \<Longrightarrow> \<exists>b'. fold_err (record_value d) es b = Inr b'"
proof (induction es arbitrary: b)
  case Nil
  then show ?case by simp
next
  case (Cons vc es)
  obtain v c where vc: "vc = (v, c)" by (cases vc)
  with Cons.prems have "v \<notin> set inherited_names" by simp
  then obtain b1 where "record_value d (v, c) b = Inr b1"
    using record_value_total by blast
  moreover from Cons.prems have "\<forall>v \<in> fst ` set es. v \<notin> set inherited_names" by simp
  ultimately show ?case using Cons.IH vc by simp
qed

lemma merge_pods_total:
  "length pods + i \<le> length ds \<Longrightarrow>
     \<exists>ds'. merge_pods pods i ds = Inr ds' \<and> length ds' = length ds"
  by (induction pods i ds rule: merge_pods.induct) auto

lemma combine_prize_entry:
  assumes "combine_prize d agg prize st = Inr st'"
  shows "merged_entry st' p val =
           (if p = prize then entry_step d agg prize val (merged_entry st prize val)
            else merged_entry st p val)"
proof -
  define prizeMap where "prizeMap = (case map_of (prizesAgg agg) prize of None \<Rightarrow> [] | Some m \<Rightarrow> m)"
  from assms obtain bucket bucket' dest dest' where
    b: "map_of (counts st) prize = Some bucket"
    and f: "fold_err (record_value d) (entries prizeMap) bucket = Inr bucket'"
    and st': "st' = st\<lparr>counts := put prize bucket' (counts st), digitCounts := put prize dest' (digitCounts st)\<rparr>"
    by (auto simp: combine_prize_def Let_def prizeMap_def split: option.splits sum.splits)
  have vc: "value_count agg prize val = map_of prizeMap val"
    by (simp add: value_count_def prizeMap_def split: option.splits)
  from fold_record_value_lookup [OF distinct_entries f, of val]
  have "map_of bucket' val = entry_step d agg prize val (map_of bucket val)"
    by (simp add: map_of_entries entry_step_def vc)
  with b st' show ?thesis
    by (simp add: merged_entry_def map_of_put)
qed

lemma fold_combine_prize_entry:
  "distinct ps \<Longrightarrow> fold_err (combine_prize d agg) ps st = Inr st' \<Longrightarrow>
     merged_entry st' p val =
       (if p \<in> set ps then entry_step d agg p val (merged_entry st p val)
        else merged_entry st p val)"
proof (induction ps arbitrary: st)
  case Nil
  then show ?case by simp
next
  case (Cons q ps)
  from Cons.prems(2) obtain st1 where
    one: "combine_prize d agg q st = Inr st1" and rest: "fold_err (combine_prize d agg) ps st1 = Inr st'"
    by (auto split: sum.splits)
  from Cons.prems(1) have dist: "distinct ps" and fresh: "q \<notin> set ps" by auto
  note ih = Cons.IH [OF dist rest]
  note step = combine_prize_entry [OF one, of p val]
  show ?case
  proof (cases "p = q")
    case True
    with fresh ih step show ?thesis by simp
  next
    case False
    with ih step show ?thesis by simp
  qed
qed

lemma distinct_PRIZE_LIST: "distinct PRIZE_LIST"
  by (simp add: PRIZE_LIST_def)

lemma combine_date_entry:
  assumes "combine_date store d st = Inr st'" and "prize \<in> set PRIZE_LIST"
  shows "merged_entry st' prize val = date_step store prize val d (merged_entry st prize val)"
proof (cases "map_of store d")
  case None
  with assms show ?thesis by (simp add: combine_date_def date_step_def)
next
  case (Some agg)
  with assms(1) obtain st1 where
    f: "fold_err (combine_prize d agg) PRIZE_LIST st = Inr st1"
    and st': "st' = st1\<lparr>resultsByDate := put d (results agg) (resultsByDate st1)\<rparr>"
    by (auto simp: combine_date_def split: sum.splits)
  from fold_combine_prize_entry [OF distinct_PRIZE_LIST f, of prize val] assms(2)
  have "merged_entry st1 prize val = entry_step d agg prize val (merged_entry st prize val)"
    by simp
  with Some st' show ?thesis
    by (simp add: merged_entry_def date_step_def)
qed

lemma fold_combine_date_entry:
  "fold_err (combine_date store) ds st = Inr m \<Longrightarrow> prize \<in> set PRIZE_LIST \<Longrightarrow>
     merged_entry m prize val = fold (date_step store prize val) ds (merged_entry st prize val)"
proof (induction ds arbitrary: st)
  case Nil
  then show ?case by simp
next
  case (Cons d ds)
  from Cons.prems(1) obtain st1 where
    one: "combine_date store d st = Inr st1" and rest: "fold_err (combine_date store) ds st1 = Inr m"
    by (auto split: sum.splits)
  from Cons.IH [OF rest Cons.prems(2)] combine_date_entry [OF one Cons.prems(2), of val]
  show ?case by simp
qed

lemma bump_count: "count (bump d c e) = count e + c"
  by (simp add: bump_def)

lemma fold_date_step_count:
  "count (entry_or_empty (fold (date_step store prize val) ds eo))
     = count (entry_or_empty eo) + sum_list (map (file_count store prize val) ds)"
proof (induction ds arbitrary: eo)
  case Nil
  then show ?case by simp
next
  case (Cons d ds)
  have "count (entry_or_empty (date_step store prize val d eo))
          = count (entry_or_empty eo) + file_count store prize val d"
    by (simp add: date_step_def entry_step_def file_count_def bump_count entry_or_empty_def
        split: option.splits)
  with Cons.IH [of "date_step store prize val d eo"] show ?case by simp
qed

lemma date_step_dates:
  "length (dates (entry_or_empty eo)) \<le> MAX_DATES_RECORD \<Longrightarrow>
   dates (entry_or_empty (date_step store prize val d eo))
     = take MAX_DATES_RECORD
         (dates (entry_or_empty eo) @ (if file_contains store prize val d then [d] else []))"
  by (auto simp: date_step_def entry_step_def file_contains_def bump_def entry_or_empty_def
      split: option.splits)

lemma fold_date_step_dates:
  "length (dates (entry_or_empty eo)) \<le> MAX_DATES_RECORD \<Longrightarrow>
   dates (entry_or_empty (fold (date_step store prize val) ds eo))
     = take MAX_DATES_RECORD
         (dates (entry_or_empty eo) @ filter (file_contains store prize val) ds)"
proof (induction ds arbitrary: eo)
  case Nil
  then show ?case by simp
next
  case (Cons d ds)
  let ?eo' = "date_step store prize val d eo"
  have one: "dates (entry_or_empty ?eo')
     = take MAX_DATES_RECORD
         (dates (entry_or_empty eo) @ (if file_contains store prize val d then [d] else []))"
    using Cons.prems by (rule date_step_dates)
  then have len: "length (dates (entry_or_empty ?eo')) \<le> MAX_DATES_RECORD"
    by simp
  have "take MAX_DATES_RECORD (take MAX_DATES_RECORD xs @ ys) = take MAX_DATES_RECORD (xs @ ys)"
    for xs ys :: "string list"
    by (cases "length xs \<le> MAX_DATES_RECORD") (simp_all add: min_def)
  with Cons.IH [OF len] one show ?case by (simp del: take_append)
qed

lemma map_of_tabulate: "map_of (map (\<lambda>p. (p, f p)) ps) p = (if p \<in> set ps then Some (f p) else None)"
  by (induction ps) auto

lemma resetCounts_ready: "counts_ready resetCounts"
  by (simp add: counts_ready_def resetCounts_def map_of_tabulate)

lemma fixed_len_le: "fixed_len p \<le> 6"
  by (simp add: fixed_len_def)

lemma short_not_inherited: "length v \<le> 6 \<Longrightarrow> v \<notin> set inherited_names"
  by (auto simp: inherited_names_def)

lemma combine_prize_total:
  assumes "wf_agg agg" and "counts_ready st" and "prize \<in> set PRIZE_LIST"
  shows "\<exists>st'. combine_prize d agg prize st = Inr st' \<and> counts_ready st'"
proof -
  define prizeMap where "prizeMap = (case map_of (prizesAgg agg) prize of None \<Rightarrow> [] | Some m \<Rightarrow> m)"
  define pods where "pods = (case map_of (digitAgg agg) prize of None \<Rightarrow> [] | Some ps \<Rightarrow> ps)"
  from assms(2,3) obtain bucket dest where
    b: "map_of (counts st) prize = Some bucket"
    and ds: "map_of (digitCounts st) prize = Some dest" and len: "length dest = fixed_len prize"
    by (auto simp: counts_ready_def split: option.splits)
  from assms(1,3) have wf:
    "(case map_of (prizesAgg agg) prize of
        None \<Rightarrow> True
      | Some m \<Rightarrow> (\<forall>val \<in> fst ` set m. length val \<le> fixed_len prize))
     \<and> (case map_of (digitAgg agg) prize of
          None \<Rightarrow> True
        | Some ps \<Rightarrow> length ps \<le> fixed_len prize)"
    unfolding wf_agg_def by blast
  then have short: "\<forall>v \<in> fst ` set prizeMap. length v \<le> fixed_len prize"
    by (cases "map_of (prizesAgg agg) prize") (simp_all add: prizeMap_def)
  have "\<forall>v \<in> fst ` set (entries prizeMap). v \<notin> set inherited_names"
  proof
    fix v
    assume "v \<in> fst ` set (entries prizeMap)"
    then have "v \<in> fst ` set prizeMap" by (simp add: keys_entries)
    with short have "length v \<le> fixed_len prize" by blast
    with fixed_len_le [of prize] have "length v \<le> 6" by simp
    then show "v \<notin> set inherited_names" by (rule short_not_inherited)
  qed
  then obtain bucket' where f: "fold_err (record_value d) (entries prizeMap) bucket = Inr bucket'"
    using fold_record_value_total by blast
  from wf have "length pods \<le> fixed_len prize"
    by (cases "map_of (digitAgg agg) prize") (simp_all add: pods_def)
  with len have "length pods + 0 \<le> length dest" by simp
  then obtain dest' where g: "merge_pods pods 0 dest = Inr dest'" and len': "length dest' = length dest"
    using merge_pods_total by blast
  let ?st' = "st\<lparr>counts := put prize bucket' (counts st), digitCounts := put prize dest' (digitCounts st)\<rparr>"
  have "combine_prize d agg prize st = Inr ?st'"
    using b ds f g by (simp add: combine_prize_def prizeMap_def pods_def)
  moreover have "counts_ready ?st'"
    using assms(2) len len' by (auto simp: counts_ready_def map_of_put split: option.splits)
  ultimately show ?thesis by blast
qed

lemma fold_combine_prize_total:
  "wf_agg agg \<Longrightarrow> counts_ready st \<Longrightarrow> set ps \<subseteq> set PRIZE_LIST \<Longrightarrow>
     \<exists>st'. fold_err (combine_prize d agg) ps st = Inr st' \<and> counts_ready st'"
proof (induction ps arbitrary: st)
  case Nil
  then show ?case by simp
next
  case (Cons q ps)
  from Cons.prems obtain st1 where
    one: "combine_prize d agg q st = Inr st1" and ready: "counts_ready st1"
    using combine_prize_total [of agg st q d] by auto
  from Cons.IH [OF Cons.prems(1) ready] Cons.prems(3) one show ?case by simp
qed

lemma combine_date_total:
  assumes "wf_store store" and "counts_ready st"
  shows "\<exists>st'. combine_date store d st = Inr st' \<and> counts_ready st'"
proof (cases "map_of store d")
  case None
  with assms(2) show ?thesis by (simp add: combine_date_def)
next
  case (Some agg)
  then have "agg \<in> snd ` set store"
    by (metis map_of_SomeD image_eqI snd_conv)
  with assms(1) have "wf_agg agg" by (auto simp: wf_store_def)
  then obtain st1 where
    f: "fold_err (combine_prize d agg) PRIZE_LIST st = Inr st1" and ready: "counts_ready st1"
    using fold_combine_prize_total [of agg st PRIZE_LIST d] assms(2) by auto
  from ready have "counts_ready (st1\<lparr>resultsByDate := put d (results agg) (resultsByDate st1)\<rparr>)"
    by (simp add: counts_ready_def)
  with Some f show ?thesis by (simp add: combine_date_def)
qed

lemma fold_combine_date_total:
  "wf_store store \<Longrightarrow> counts_ready st \<Longrightarrow>
     \<exists>m. fold_err (combine_date store) ds st = Inr m \<and> counts_ready m"
proof (induction ds arbitrary: st)
  case Nil
  then show ?case by simp
next
  case (Cons d ds)
  from combine_date_total [OF Cons.prems] obtain st1 where
    one: "combine_date store d st = Inr st1" and ready: "counts_ready st1"
    by blast
  from Cons.IH [OF Cons.prems(1) ready] one show ?case by simp
qed

lemma combine_total:
  "wf_store store \<Longrightarrow> \<exists>m. combineAggregatesForDates selected store = Inr m"
  unfolding combineAggregatesForDates_def
  using fold_combine_date_total [OF _ resetCounts_ready] by blast

lemma resetCounts_entry: "merged_entry resetCounts prize val = None"
  by (simp add: merged_entry_def resetCounts_def map_of_tabulate)

lemma combine_entry:
  "combineAggregatesForDates selected store = Inr m \<Longrightarrow> prize \<in> set PRIZE_LIST \<Longrightarrow>
     merged_entry m prize val = fold (date_step store prize val) selected None"
  unfolding combineAggregatesForDates_def
  using fold_combine_date_entry [of store selected resetCounts m prize val]
  by (simp add: resetCounts_entry)

lemma combine_total_count:
  "combineAggregatesForDates selected store = Inr m \<Longrightarrow> prize \<in> set PRIZE_LIST \<Longrightarrow>
     total_count m prize val = sum_list (map (file_count store prize val) selected)"
  using fold_date_step_count [of store prize val selected None]
  by (simp add: total_count_def combine_entry entry_or_empty_def split: option.splits)

lemma combine_dates:
  "combineAggregatesForDates selected store = Inr m \<Longrightarrow> prize \<in> set PRIZE_LIST \<Longrightarrow>
     contributing_dates m prize val
       = take MAX_DATES_RECORD (filter (file_contains store prize val) selected)"
  using fold_date_step_dates [of None store prize val selected]
  by (simp add: contributing_dates_def combine_entry entry_or_empty_def split: option.splits)

lemma wf_two_agg: "\<forall>v \<in> fst ` set m. length v \<le> 2 \<Longrightarrow> wf_agg (two_agg d m)"
  by (simp add: wf_agg_def two_agg_def PRIZE_LIST_def fixed_len_def startsWith_def)

lemma wf_three_files: "wf_store three_files"
  by (simp add: wf_store_def three_files_def wf_two_agg)

lemma wf_many_files: "wf_store many_files"
  by (auto simp: wf_store_def many_files_def wf_two_agg)

lemma distinct_many_dates: "distinct many_dates"
  by (simp add: many_dates_def pad2_def padStart2_def toString.simps digit_def upt_rec)

lemma length_many_dates: "length many_dates = 51"
  by (simp add: many_dates_def pad2_def padStart2_def toString.simps digit_def upt_rec)

text \<open>
  C3. For a store of parser-shaped aggregates and a selection without repetitions, the merge
  succeeds, and the merged count of every (category, value) pair is the sum of its per-file
  counts over exactly the selected dates that are in the store; any other ordering of the
  same selection gives the same count.
\<close>

theorem C3_merged_count_is_sum_over_selected:
  assumes "wf_store store" and "prize \<in> set PRIZE_LIST"
    and "distinct selected" and "distinct selected'" and "set selected' = set selected"
  shows "\<exists>m m'. combineAggregatesForDates selected store = Inr m
           \<and> combineAggregatesForDates selected' store = Inr m'
           \<and> total_count m prize val
               = (\<Sum>d \<in> {d \<in> set selected. has store d}. file_count store prize val d)
           \<and> total_count m' prize val = total_count m prize val"
proof -
  from combine_total [OF assms(1)] obtain m m' where
    m: "combineAggregatesForDates selected store = Inr m"
    and m': "combineAggregatesForDates selected' store = Inr m'"
    by blast
  have absent: "file_count store prize val d = 0" if "\<not> has store d" for d
  proof -
    from that have "map_of store d = None"
      by (simp add: has_def map_of_eq_None_iff)
    then show ?thesis by (simp add: file_count_def)
  qed
  have sum: "sum_list (map (file_count store prize val) xs)
               = (\<Sum>d \<in> {d \<in> set xs. has store d}. file_count store prize val d)"
    if "distinct xs" for xs
  proof -
    have "sum_list (map (file_count store prize val) xs) = (\<Sum>d \<in> set xs. file_count store prize val d)"
      using that by (simp add: sum_list_distinct_conv_sum_set)
    also have "\<dots> = (\<Sum>d \<in> {d \<in> set xs. has store d}. file_count store prize val d)"
      by (rule sum.mono_neutral_right) (auto simp: absent)
    finally show ?thesis .
  qed
  have "total_count m prize val
          = (\<Sum>d \<in> {d \<in> set selected. has store d}. file_count store prize val d)"
    using combine_total_count [OF m assms(2)] sum [OF assms(3)] by simp
  moreover have "total_count m' prize val
          = (\<Sum>d \<in> {d \<in> set selected. has store d}. file_count store prize val d)"
    using combine_total_count [OF m' assms(2)] sum [OF assms(4)] assms(5) by simp
  ultimately show ?thesis using m m' by simp
qed

theorem C3_merged_count_is_sum_over_selected_witness:
  "wf_store three_files \<and> ''TWO'' \<in> set PRIZE_LIST
   \<and> distinct [''2020-01-16'', ''2020-02-01'', ''2020-02-16'', ''2020-03-01'']
   \<and> (\<exists>m m'. combineAggregatesForDates
                 [''2020-01-16'', ''2020-02-01'', ''2020-02-16'', ''2020-03-01''] three_files = Inr m
          \<and> combineAggregatesForDates
                 [''2020-03-01'', ''2020-02-16'', ''2020-02-01'', ''2020-01-16''] three_files = Inr m'
          \<and> total_count m ''TWO'' ''12'' = 3
          \<and> total_count m' ''TWO'' ''12'' = 3)"
proof -
  let ?sel = "[''2020-01-16'', ''2020-02-01'', ''2020-02-16'', ''2020-03-01'']"
  let ?sel' = "[''2020-03-01'', ''2020-02-16'', ''2020-02-01'', ''2020-01-16'']"
  have p: "''TWO'' \<in> set PRIZE_LIST" by (simp add: PRIZE_LIST_def)
  have d: "distinct ?sel" and d': "distinct ?sel'" and s: "set ?sel' = set ?sel"
    by auto
  have present: "{d \<in> set ?sel. has three_files d} = {''2020-01-16'', ''2020-02-01'', ''2020-02-16''}"
    by (auto simp: has_def three_files_def)
  have sum: "(\<Sum>d \<in> {d \<in> set ?sel. has three_files d}. file_count three_files ''TWO'' ''12'' d) = 3"
    unfolding present
    by (simp add: file_count_def value_count_def three_files_def two_agg_def)
  from C3_merged_count_is_sum_over_selected [OF wf_three_files p d d' s, of "''12''"] sum
  show ?thesis using wf_three_files p d by auto
qed

text \<open>
  C5. Under the same conditions the list of contributing dates of a (category, value) pair
  is the first \<open>MAX_DATES_RECORD = 50\<close> selected dates, in fold order, whose file contains
  the value: it has no repetition and never more than 50 entries, while the count is the sum
  over all selected dates, those past the cap included.
\<close>

theorem C5_contributing_dates_first_up_to_cap:
  assumes "wf_store store" and "prize \<in> set PRIZE_LIST" and "distinct selected"
  shows "\<exists>m. combineAggregatesForDates selected store = Inr m
           \<and> contributing_dates m prize val
               = take MAX_DATES_RECORD (filter (file_contains store prize val) selected)
           \<and> distinct (contributing_dates m prize val)
           \<and> length (contributing_dates m prize val) \<le> MAX_DATES_RECORD
           \<and> total_count m prize val = sum_list (map (file_count store prize val) selected)"
proof -
  from combine_total [OF assms(1)] obtain m where
    m: "combineAggregatesForDates selected store = Inr m"
    by blast
  note d = combine_dates [OF m assms(2), of val]
  have "distinct (take MAX_DATES_RECORD (filter (file_contains store prize val) selected))"
    using assms(3) by (simp add: distinct_take)
  with d m combine_total_count [OF m assms(2), of val] show ?thesis by simp
qed

theorem C5_contributing_dates_first_up_to_cap_witness:
  "wf_store many_files \<and> ''TWO'' \<in> set PRIZE_LIST \<and> distinct many_dates
   \<and> length many_dates = 51
   \<and> (\<exists>m. combineAggregatesForDates many_dates many_files = Inr m
          \<and> contributing_dates m ''TWO'' ''12'' = take 50 many_dates
          \<and> length (contributing_dates m ''TWO'' ''12'') = 50
          \<and> total_count m ''TWO'' ''12'' = 51)"
proof -
  have p: "''TWO'' \<in> set PRIZE_LIST" by (simp add: PRIZE_LIST_def)
  have look: "map_of many_files d = Some (two_agg d [(''12'', 1)])" if "d \<in> set many_dates" for d
    using that by (simp add: many_files_def map_of_tabulate)
  have "file_contains many_files ''TWO'' ''12'' d" if "d \<in> set many_dates" for d
    using look [OF that] by (simp add: file_contains_def value_count_def two_agg_def)
  then have all: "filter (file_contains many_files ''TWO'' ''12'') many_dates = many_dates"
    by (simp add: filter_id_conv)
  have "file_count many_files ''TWO'' ''12'' d = 1" if "d \<in> set many_dates" for d
    using look [OF that] by (simp add: file_count_def value_count_def two_agg_def)
  then have "map (file_count many_files ''TWO'' ''12'') many_dates = map (\<lambda>_. 1) many_dates"
    by simp
  then have total: "sum_list (map (file_count many_files ''TWO'' ''12'') many_dates) = 51"
    by (simp add: sum_list_triv length_many_dates del: map_eq_conv)
  from C5_contributing_dates_first_up_to_cap [OF wf_many_files p distinct_many_dates, of "''12''"]
    all total
  show ?thesis
    using wf_many_files p distinct_many_dates length_many_dates
    by (auto simp: MAX_DATES_RECORD_def)
qed

section \<open>Properties of the Record Parser\<close>

lemma keys_put: "fst ` set (put k v al) = insert k (fst ` set al)"
  by (simp add: dom_map_of_conv_image_fst [symmetric] map_of_put)

lemma inc_value_keys:
  "inc_value op val bucket = Inr bucket' \<Longrightarrow> fst ` set bucket' = insert val (fst ` set bucket)"
proof -
  assume "inc_value op val bucket = Inr bucket'"
  then obtain n where "bucket' = put val n bucket"
    by (auto simp: inc_value_def split: option.splits if_splits)
  then show ?thesis by (simp add: keys_put)
qed

lemma own_val_keys:
  "own_val op val (bucket, pods) = Inr (bucket', pods') \<Longrightarrow>
     fst ` set bucket' = (if val = [] then fst ` set bucket else insert val (fst ` set bucket))"
proof -
  assume a: "own_val op val (bucket, pods) = Inr (bucket', pods')"
  show ?thesis
  proof (cases "val = []")
    case True
    with a show ?thesis by (simp add: own_val_def)
  next
    case False
    with a have "inc_value op val bucket = Inr bucket'"
      by (auto simp: own_val_def split: sum.splits)
    with False show ?thesis by (simp add: inc_value_keys)
  qed
qed

lemma fold_own_val_keys:
  "fold_err (own_val op) vals bp = Inr bp' \<Longrightarrow>
     fst ` set (fst bp') = fst ` set (fst bp) \<union> {v \<in> set vals. v \<noteq> []}"
proof (induction vals arbitrary: bp)
  case Nil
  then show ?case by simp
next
  case (Cons v vals)
  from Cons.prems obtain bp1 where
    one: "own_val op v bp = Inr bp1" and rest: "fold_err (own_val op) vals bp1 = Inr bp'"
    by (auto split: sum.splits)
  from one have "fst ` set (fst bp1) = (if v = [] then fst ` set (fst bp) else insert v (fst ` set (fst bp)))"
    using own_val_keys [of op v "fst bp" "snd bp" "fst bp1" "snd bp1"] by simp
  with Cons.IH [OF rest] show ?case by auto
qed

lemma length_last_chars: "length (last_chars len n) \<le> len"
  by (simp add: last_chars_def)

lemma set_put_subset: "set (put k v al) \<subseteq> insert (k, v) (set al)"
  by (induction al) (auto split: if_splits)

lemma values_bounded_put:
  "values_bounded ps \<Longrightarrow> \<forall>val \<in> fst ` set b. 1 \<le> length val \<and> length val \<le> fixed_len tag \<Longrightarrow>
     values_bounded (put tag b ps)"
  unfolding values_bounded_def using set_put_subset [of tag b ps] by fastforce

lemma foreign_line_frame:
  "foreign_line strict tag lastVals st = Inr st' \<Longrightarrow>
     prizes st' = prizes st \<and> digits st' = digits st
     \<and> (res st' = res st \<or> res st' = put tag (join '', '' lastVals) (res st))"
  by (auto simp: foreign_line_def split: option.splits if_splits sum.splits prod.splits)

lemma parse_line_bounded:
  assumes "parse_line strict line st = Inr st'" and "values_bounded (prizes st)"
  shows "values_bounded (prizes st')"
proof (cases "trim line = []")
  case True
  with assms show ?thesis by (simp add: parse_line_def)
next
  case False
  show ?thesis
  proof (cases "split_ws (trim line)")
    case Nil
    with assms False show ?thesis by (simp add: parse_line_def)
  next
    case (Cons tag rest)
    define lastVals where "lastVals = map (last_chars (fixed_len tag)) (filter (\<lambda>n. n \<noteq> []) rest)"
    show ?thesis
    proof (cases "map_of (prizes st) tag")
      case None
      with assms False Cons have "foreign_line strict tag lastVals st = Inr st'"
        by (simp add: parse_line_def Let_def lastVals_def)
      then have "prizes st' = prizes st" by (simp add: foreign_line_frame)
      with assms(2) show ?thesis by simp
    next
      case (Some bucket)
      with assms(1) False Cons obtain pods bp where
        f: "fold_err (own_val (proto st)) lastVals (bucket, pods) = Inr bp"
        and st': "prizes st' = put tag (fst bp) (prizes st)"
        by (auto simp: parse_line_def Let_def lastVals_def split: option.splits sum.splits)
      from Some have "(tag, bucket) \<in> set (prizes st)" by (rule map_of_SomeD)
      with assms(2) have old: "\<forall>val \<in> fst ` set bucket. 1 \<le> length val \<and> length val \<le> fixed_len tag"
        by (auto simp: values_bounded_def)
      have new: "1 \<le> length v \<and> length v \<le> fixed_len tag" if "v \<in> set lastVals" "v \<noteq> []" for v
      proof -
        from that(1) have "length v \<le> fixed_len tag"
          by (auto simp: lastVals_def length_last_chars)
        moreover from that(2) have "1 \<le> length v"
          by (cases v) simp_all
        ultimately show ?thesis by simp
      qed
      from fold_own_val_keys [OF f] old new
      have "\<forall>val \<in> fst ` set (fst bp). 1 \<le> length val \<and> length val \<le> fixed_len tag"
        by auto
      with assms(2) st' show ?thesis by (simp add: values_bounded_put)
    qed
  qed
qed

lemma fold_parse_line_bounded:
  "fold_err (parse_line strict) ls st = Inr st' \<Longrightarrow> values_bounded (prizes st) \<Longrightarrow>
     values_bounded (prizes st')"
proof (induction ls arbitrary: st)
  case Nil
  then show ?case by simp
next
  case (Cons l ls)
  from Cons.prems(1) obtain st1 where
    one: "parse_line strict l st = Inr st1" and rest: "fold_err (parse_line strict) ls st1 = Inr st'"
    by (auto split: sum.splits)
  from Cons.IH [OF rest parse_line_bounded [OF one Cons.prems(2)]] show ?case .
qed

lemma parse_start_bounded: "values_bounded (prizes (parse_start op))"
  by (auto simp: values_bounded_def parse_start_def)

lemma parse_returns:
  "parseTextToAggregate strict op dateKey text = (Inr agg, op') \<Longrightarrow>
     \<exists>st. fold_err (parse_line strict) (drop 1 (split_lines text)) (parse_start op) = Inr st
          \<and> agg = \<lparr>aggDateStr = dateKey, prizesAgg = prizes st, digitAgg = digits st, results = res st\<rparr>
          \<and> op' = realm_of st"
  by (auto simp: parseTextToAggregate_def split: sum.splits prod.splits)

lemma parse_line_tags:
  assumes "parse_line strict line st = Inr st'"
  shows "fst ` set (prizes st') = fst ` set (prizes st)"
proof (cases "trim line = []")
  case True
  with assms show ?thesis by (simp add: parse_line_def)
next
  case False
  show ?thesis
  proof (cases "split_ws (trim line)")
    case Nil
    with assms False show ?thesis by (simp add: parse_line_def)
  next
    case (Cons tag rest)
    show ?thesis
    proof (cases "map_of (prizes st) tag")
      case None
      with assms False Cons obtain lastVals where "foreign_line strict tag lastVals st = Inr st'"
        by (simp add: parse_line_def Let_def)
      then have "prizes st' = prizes st" by (simp add: foreign_line_frame)
      then show ?thesis by simp
    next
      case (Some bucket)
      with assms False Cons obtain b' where "prizes st' = put tag b' (prizes st)"
        by (auto simp: parse_line_def Let_def split: option.splits sum.splits)
      moreover from Some have "tag \<in> fst ` set (prizes st)"
        by (metis domI dom_map_of_conv_image_fst)
      ultimately show ?thesis by (auto simp: keys_put)
    qed
  qed
qed

lemma parse_line_res:
  assumes "parse_line strict line st = Inr st'" and "tag \<in> fst ` set (prizes st)"
  shows "map_of (res st') tag =
           (if line_tag line = Some tag then Some (join '', '' (line_vals line))
            else map_of (res st) tag)"
proof (cases "trim line = []")
  case True
  with assms show ?thesis by (simp add: parse_line_def line_tag_def)
next
  case False
  show ?thesis
  proof (cases "split_ws (trim line)")
    case Nil
    with assms False show ?thesis by (simp add: parse_line_def line_tag_def)
  next
    case (Cons t rest)
    with False have lt: "line_tag line = Some t" by (simp add: line_tag_def)
    from Cons have lv: "line_vals line = map (last_chars (fixed_len t)) (filter (\<lambda>n. n \<noteq> []) rest)"
      by (simp add: line_vals_def)
    show ?thesis
    proof (cases "t = tag")
      case True
      from assms(2) obtain bucket where "map_of (prizes st) tag = Some bucket"
        by (metis domD dom_map_of_conv_image_fst)
      with assms(1) False Cons True have "res st' = put tag (join '', '' (line_vals line)) (res st)"
        by (auto simp: parse_line_def Let_def lv split: option.splits sum.splits)
      with lt True show ?thesis by (simp add: map_of_put)
    next
      case diff: False
      have "res st' = res st \<or> (\<exists>s. res st' = put t s (res st))"
      proof (cases "map_of (prizes st) t")
        case None
        with assms(1) \<open>trim line \<noteq> []\<close> Cons obtain lastVals where
          "foreign_line strict t lastVals st = Inr st'"
          by (simp add: parse_line_def Let_def)
        from foreign_line_frame [OF this] show ?thesis by blast
      next
        case (Some bucket)
        with assms(1) \<open>trim line \<noteq> []\<close> Cons show ?thesis
          by (auto simp: parse_line_def Let_def split: option.splits sum.splits)
      qed
      with lt diff show ?thesis by (auto simp: map_of_put)
    qed
  qed
qed

lemma display_of_Cons:
  "display_of tag (l # ls) =
     (case display_of tag ls of
        Some s \<Rightarrow> Some s
      | None \<Rightarrow> if line_tag l = Some tag then Some (join '', '' (line_vals l)) else None)"
  by (simp add: display_of_def last_tagged_def split: list.splits)

lemma fold_parse_line_res:
  "fold_err (parse_line strict) ls st = Inr st' \<Longrightarrow> tag \<in> fst ` set (prizes st) \<Longrightarrow>
     map_of (res st') tag =
       (case display_of tag ls of None \<Rightarrow> map_of (res st) tag | Some s \<Rightarrow> Some s)"
proof (induction ls arbitrary: st)
  case Nil
  then show ?case by (simp add: display_of_def last_tagged_def)
next
  case (Cons l ls)
  from Cons.prems(1) obtain st1 where
    one: "parse_line strict l st = Inr st1" and rest: "fold_err (parse_line strict) ls st1 = Inr st'"
    by (auto split: sum.splits)
  from Cons.prems(2) parse_line_tags [OF one] have own: "tag \<in> fst ` set (prizes st1)" by simp
  from Cons.IH [OF rest own] parse_line_res [OF one Cons.prems(2)]
  show ?case by (simp add: display_of_Cons split: option.splits)
qed

lemma parse_start_tags: "fst ` set (prizes (parse_start op)) = set PRIZE_LIST"
  by (simp add: parse_start_def image_image)

lemma parse_results_lookup:
  assumes "parseTextToAggregate strict op dateKey text = (Inr agg, op')"
    and "tag \<in> set PRIZE_LIST"
  shows "map_of (results agg) tag = display_of tag (drop 1 (split_lines text))"
proof -
  from parse_returns [OF assms(1)] obtain st where
    f: "fold_err (parse_line strict) (drop 1 (split_lines text)) (parse_start op) = Inr st"
    and agg: "results agg = res st"
    by auto
  from assms(2) have "tag \<in> fst ` set (prizes (parse_start op))"
    by (simp add: parse_start_tags)
  from fold_parse_line_res [OF f this] agg show ?thesis
    by (simp add: parse_start_def split: option.splits)
qed




lemma fixed_len_pos: "0 < fixed_len p"
  by (simp add: fixed_len_def)

lemma last_chars_nonempty: "n \<noteq> [] \<Longrightarrow> 0 < len \<Longrightarrow> last_chars len n \<noteq> []"
  by (cases n) (auto simp: last_chars_def)










text \<open>
  C6, as the code has it. Whenever the parser returns, \<^verbatim>\<open>results[tag]\<close> of a category
  is the values of the last line that carries the tag, truncated, joined with a comma and a
  space; it is absent when no line carries the tag. An earlier line of the same tag is
  overwritten.
\<close>

theorem C6_display_is_last_tagged_line:
  "parseTextToAggregate strict op dateKey text = (Inr agg, op') \<Longrightarrow> tag \<in> set PRIZE_LIST \<Longrightarrow>
     map_of (results agg) tag
       = map_option (\<lambda>l. join '', '' (line_vals l))
           (last_tagged tag (drop 1 (split_lines text)))"
  by (simp add: parse_results_lookup display_of_def)

theorem C6_display_is_last_tagged_line_witness:
  "parseTextToAggregate False fresh_realm ''2020-01-16'' two_first_lines = (Inr two_first_agg, fresh_realm)
   \<and> ''FIRST'' \<in> set PRIZE_LIST
   \<and> map_of (results two_first_agg) ''FIRST''
       = map_option (\<lambda>l. join '', '' (line_vals l))
           (last_tagged ''FIRST'' (drop 1 (split_lines two_first_lines)))
   \<and> map_of (results two_first_agg) ''FIRST'' = Some ''222222''"
proof -
  have run: "parseTextToAggregate False fresh_realm ''2020-01-16'' two_first_lines = (Inr two_first_agg, fresh_realm)"
    by code_simp
  have tag: "''FIRST'' \<in> set PRIZE_LIST"
    by (simp add: PRIZE_LIST_def)
  have "map_of (results two_first_agg) ''FIRST'' = Some ''222222''"
    by (simp add: two_first_agg_def)
  with C6_display_is_last_tagged_line [OF run tag] run tag show ?thesis
    by blast
qed

text \<open>
  The claim as stated fails: with two \<^verbatim>\<open>FIRST\<close> lines the display string holds the
  second line's value only, not the two accepted values in order.
\<close>

theorem C6_overwritten_line_counterexample:
  "map_option (\<lambda>a. map_of (results a) ''FIRST'')
     (returned (parseTextToAggregate False fresh_realm ''2020-01-16'' two_first_lines))
     = Some (Some ''222222'')
   \<and> all_vals ''FIRST'' (drop 1 (split_lines two_first_lines)) = [''111111'', ''222222'']
   \<and> join '','' [''111111'', ''222222''] \<noteq> ''222222''
   \<and> join '', '' [''111111'', ''222222''] \<noteq> ''222222''"
  by code_simp

text \<open>
  The model covers every text: the outcome of the parser is a returned aggregate or a
  \<^verbatim>\<open>TypeError\<close>, never \<open>Unmodelled\<close>. A value is cut to six code units at most, which
  is shorter than every inherited name, and a tag with a bucket has its digit maps.
\<close>

lemma fold_err_Inl: "fold_err f xs s = Inl e \<Longrightarrow> \<exists>x \<in> set xs. \<exists>s'. f x s' = Inl e"
  by (induction xs arbitrary: s) (auto split: sum.splits)

lemma inc_digits_error: "inc_digits op val i pods = Inl e \<Longrightarrow> e = TypeError"
  by (induction op val i pods rule: inc_digits.induct) (auto split: if_splits)

lemma own_val_error: "length val \<le> 6 \<Longrightarrow> own_val op val bp = Inl e \<Longrightarrow> e = TypeError"
  by (auto simp: own_val_def inc_value_def short_not_inherited dest: inc_digits_error
      split: if_splits sum.splits option.splits prod.splits)

lemma proto_val_error:
  "length val \<le> 6 \<Longrightarrow> proto_val strict val op = Inl (e, op') \<Longrightarrow> e = TypeError"
  by (auto simp: proto_val_def Let_def short_not_inherited split: if_splits)

lemma fn_val_error:
  "length val \<le> 6 \<Longrightarrow> fn_val strict op tag val fk = Inl (e, fk') \<Longrightarrow> e = TypeError"
  by (auto simp: fn_val_def Let_def split: if_splits)

lemma num_val_error: "num_val strict op val u = Inl e \<Longrightarrow> e = TypeError"
  by (auto simp: num_val_def split: if_splits)

lemma foreign_line_error:
  assumes "foreign_line strict tag lastVals st = Inl (e, r)"
    and "\<forall>v \<in> set lastVals. length v \<le> 6"
  shows "e = TypeError"
proof -
  from assms(1) consider
    (num) "fold_err (num_val strict (proto st)) lastVals () = Inl e"
    | (pro) op' where "fold_err (proto_val strict) lastVals (proto st) = Inl (e, op')"
    | (fn) fk where "fold_err (fn_val strict (proto st) tag) lastVals (fns st) = Inl (e, fk)"
    by (auto simp: foreign_line_def split: option.splits if_splits sum.splits prod.splits)
  then show ?thesis
  proof cases
    case num
    from fold_err_Inl [OF num] show ?thesis by (auto dest: num_val_error)
  next
    case pro
    from fold_err_Inl [OF pro] assms(2) show ?thesis by (auto dest: proto_val_error)
  next
    case fn
    from fold_err_Inl [OF fn] assms(2) show ?thesis by (auto dest: fn_val_error)
  qed
qed

lemma parse_line_error:
  assumes "parse_line strict line st = Inl (e, r)"
    and "fst ` set (digits st) = fst ` set (prizes st)"
  shows "e = TypeError"
proof (cases "trim line = []")
  case True
  with assms show ?thesis by (simp add: parse_line_def)
next
  case False
  show ?thesis
  proof (cases "split_ws (trim line)")
    case Nil
    with assms False show ?thesis by (simp add: parse_line_def)
  next
    case (Cons tag rest)
    define lastVals where "lastVals = map (last_chars (fixed_len tag)) (filter (\<lambda>n. n \<noteq> []) rest)"
    have short: "\<forall>v \<in> set lastVals. length v \<le> 6"
      using length_last_chars [of "fixed_len tag"] fixed_len_le [of tag]
      by (auto simp: lastVals_def intro: order_trans)
    show ?thesis
    proof (cases "map_of (prizes st) tag")
      case None
      with assms(1) False Cons have "foreign_line strict tag lastVals st = Inl (e, r)"
        by (simp add: parse_line_def Let_def lastVals_def)
      from foreign_line_error [OF this short] show ?thesis .
    next
      case (Some bucket)
      then have "tag \<in> fst ` set (prizes st)"
        by (metis domI dom_map_of_conv_image_fst)
      with assms(2) obtain pods where pods: "map_of (digits st) tag = Some pods"
        by (metis domD dom_map_of_conv_image_fst)
      with assms(1) False Cons Some
      have "fold_err (own_val (proto st)) lastVals (bucket, pods) = Inl e"
        by (auto simp: parse_line_def Let_def lastVals_def split: sum.splits)
      from fold_err_Inl [OF this] short show ?thesis by (auto dest: own_val_error)
    qed
  qed
qed

lemma parse_line_digit_tags:
  assumes "parse_line strict line st = Inr st'"
    and "fst ` set (digits st) = fst ` set (prizes st)"
  shows "fst ` set (digits st') = fst ` set (prizes st')"
proof (cases "trim line = []")
  case True
  with assms show ?thesis by (simp add: parse_line_def)
next
  case False
  show ?thesis
  proof (cases "split_ws (trim line)")
    case Nil
    with assms False show ?thesis by (simp add: parse_line_def)
  next
    case (Cons tag rest)
    show ?thesis
    proof (cases "map_of (prizes st) tag")
      case None
      with assms(1) False Cons obtain lastVals where
        "foreign_line strict tag lastVals st = Inr st'"
        by (simp add: parse_line_def Let_def)
      with assms(2) show ?thesis by (simp add: foreign_line_frame)
    next
      case (Some bucket)
      with assms(1) False Cons obtain b' p' where
        "prizes st' = put tag b' (prizes st)" and "digits st' = put tag p' (digits st)"
        by (auto simp: parse_line_def Let_def split: option.splits sum.splits)
      with assms(2) show ?thesis by (simp add: keys_put)
    qed
  qed
qed

lemma fold_parse_line_error:
  "fold_err (parse_line strict) ls st = Inl (e, r) \<Longrightarrow>
     fst ` set (digits st) = fst ` set (prizes st) \<Longrightarrow> e = TypeError"
proof (induction ls arbitrary: st)
  case Nil
  then show ?case by simp
next
  case (Cons l ls)
  show ?case
  proof (cases "parse_line strict l st")
    case (Inl x)
    with Cons.prems(1) have "parse_line strict l st = Inl (e, r)" by simp
    from parse_line_error [OF this Cons.prems(2)] show ?thesis .
  next
    case (Inr st1)
    with Cons.prems(1) have "fold_err (parse_line strict) ls st1 = Inl (e, r)" by simp
    from Cons.IH [OF this parse_line_digit_tags [OF Inr Cons.prems(2)]] show ?thesis .
  qed
qed

lemma parser_outcome:
  "(\<exists>agg. fst (parseTextToAggregate strict r dateKey text) = Inr agg)
   \<or> fst (parseTextToAggregate strict r dateKey text) = Inl TypeError"
proof (cases "fold_err (parse_line strict) (drop 1 (split_lines text)) (parse_start r)")
  case (Inl x)
  obtain e r' where x: "x = (e, r')" by (cases x)
  have "fst ` set (digits (parse_start r)) = fst ` set (prizes (parse_start r))"
    by (simp add: parse_start_def image_image)
  from fold_parse_line_error [OF Inl [unfolded x] this] Inl x show ?thesis
    by (simp add: parseTextToAggregate_def)
next
  case (Inr st)
  then show ?thesis by (simp add: parseTextToAggregate_def)
qed

text \<open>
  A line whose tag names a built-in function. Outside strict mode the line
  \<^verbatim>\<open>constructor 0\<close> assigns \<^verbatim>\<open>Object['0'] = 1\<close>, the digit count then goes to a property
  of that number and is dropped, and the parser returns; the categories are as without the
  line, and \<^verbatim>\<open>results\<close> has the extra key. In strict mode the same line throws. The line
  \<^verbatim>\<open>constructor 1\<close> throws in both modes, because \<^verbatim>\<open>Object[0]\<close> is \<^verbatim>\<open>undefined\<close>.
\<close>

lemma function_tag_lines:
  "parseTextToAggregate False fresh_realm ''2020-01-16'' function_tag_text
     = (Inr function_tag_agg, \<lparr>protoProps = [], fnProps = [(''constructor'', [''0''])]\<rparr>)
   \<and> parseTextToAggregate True fresh_realm ''2020-01-16'' function_tag_text
     = (Inl TypeError, \<lparr>protoProps = [], fnProps = [(''constructor'', [''0''])]\<rparr>)
   \<and> parseTextToAggregate False fresh_realm ''2020-01-16'' undefined_index_text
     = (Inl TypeError, \<lparr>protoProps = [], fnProps = [(''constructor'', [''1''])]\<rparr>)"
  by code_simp

text \<open>
  C10. The claim says the parser returns an aggregate for every text. A line whose tag is
  \<^verbatim>\<open>__proto__\<close> passes the guard \<^verbatim>\<open>if (!prizesAgg[tag]) return\<close>, and with a value on
  it the call throws, in strict mode and outside it.
\<close>

theorem C10_inherited_tag_makes_the_parser_throw:
  "parseTextToAggregate False fresh_realm ''2020-01-16'' proto_tag_text
       = (Inl TypeError, \<lparr>protoProps = [(''1'', 1)], fnProps = []\<rparr>)
   \<and> parseTextToAggregate True fresh_realm ''2020-01-16'' proto_tag_text
       = (Inl TypeError, \<lparr>protoProps = [(''1'', 1)], fnProps = []\<rparr>)"
  by code_simp

text \<open>
  C9. The claim says two parses of the same text give the same aggregate. Outside strict mode
  the file below counts its one value \<^verbatim>\<open>0\<close> of \<^verbatim>\<open>FIRST\<close> twice in a fresh realm,
  because its \<^verbatim>\<open>__proto__\<close> line has put a count on \<^verbatim>\<open>Object.prototype\<close>; parsed
  again in the realm the first call left, it counts it three times.
\<close>

theorem C9_second_parse_differs:
  "map_option (\<lambda>a. map_of (prizesAgg a) ''FIRST'')
     (returned (parseTextToAggregate False fresh_realm ''2020-01-16'' polluting_text))
     = Some (Some [(''0'', 2)])
   \<and> snd (parseTextToAggregate False fresh_realm ''2020-01-16'' polluting_text)
       = \<lparr>protoProps = [(''0'', 1)], fnProps = []\<rparr>
   \<and> map_option (\<lambda>a. map_of (prizesAgg a) ''FIRST'')
       (returned (parseTextToAggregate False
          (snd (parseTextToAggregate False fresh_realm ''2020-01-16'' polluting_text))
          ''2020-01-16'' polluting_text))
     = Some (Some [(''0'', 3)])"
  by code_simp

section \<open>Properties of the CSV export\<close>

lemma split_ws_from_no_space:
  "\<forall>c \<in> set cur. \<not> is_space c \<Longrightarrow> \<forall>p \<in> set (split_ws_from cur s). \<forall>c \<in> set p. \<not> is_space c"
proof (induction cur s rule: split_ws_from.induct)
  case (1 cur)
  then show ?case by simp
next
  case (2 cur c cs)
  show ?case
  proof (cases "is_space c")
    case True
    have "\<forall>p \<in> set (split_ws_from [] (dropWhile is_space cs)). \<forall>c \<in> set p. \<not> is_space c"
      using "2.IH"(1) [OF True] by simp
    with True "2.prems" show ?thesis by simp
  next
    case False
    have "\<forall>p \<in> set (split_ws_from (c # cur) cs). \<forall>c \<in> set p. \<not> is_space c"
      using "2.IH"(2) [OF False] False "2.prems" by simp
    with False show ?thesis by simp
  qed
qed

lemma split_ws_no_space: "p \<in> set (split_ws s) \<Longrightarrow> c \<in> set p \<Longrightarrow> \<not> is_space c"
  using split_ws_from_no_space [of "[]" s] by (auto simp: split_ws_def)

lemma line_vals_shape:
  assumes "v \<in> set (line_vals line)"
  shows "v \<noteq> [] \<and> (\<forall>c \<in> set v. \<not> is_space c)"
proof (cases "split_ws (trim line)")
  case Nil
  with assms show ?thesis by (simp add: line_vals_def)
next
  case (Cons tag rest)
  with assms obtain n where n: "n \<in> set rest" "n \<noteq> []" and v: "v = last_chars (fixed_len tag) n"
    by (auto simp: line_vals_def)
  from n(1) Cons have "n \<in> set (split_ws (trim line))" by simp
  then have "\<forall>c \<in> set n. \<not> is_space c"
    using split_ws_no_space by blast
  moreover have "set v \<subseteq> set n"
    by (simp add: v last_chars_def set_drop_subset)
  ultimately show ?thesis
    using last_chars_nonempty [OF n(2) fixed_len_pos, of tag] v by auto
qed

lemma dropWhile_none: "\<forall>c \<in> set xs. \<not> P c \<Longrightarrow> dropWhile P xs = xs"
  by (cases xs) auto

lemma trim_no_space: "\<forall>c \<in> set v. \<not> is_space c \<Longrightarrow> trim v = v"
  by (simp add: trim_def dropWhile_none)

lemma trim_leading_space: "\<forall>c \<in> set v. \<not> is_space c \<Longrightarrow> trim (CHR '' '' # v) = v"
proof -
  assume a: "\<forall>c \<in> set v. \<not> is_space c"
  have "is_space (CHR '' '')" by (simp add: is_space_def)
  then have "dropWhile is_space (CHR '' '' # v) = dropWhile is_space v" by simp
  with a show ?thesis by (simp add: trim_def dropWhile_none)
qed

lemma split_on_from_append:
  "sep \<notin> set v \<Longrightarrow> split_on_from sep cur (v @ rest) = split_on_from sep (rev v @ cur) rest"
  by (induction v arbitrary: cur) auto

lemma split_on_from_join:
  "\<forall>w \<in> set (v # ws). CHR '','' \<notin> set w \<Longrightarrow>
     split_on_from (CHR '','') cur (join '', '' (v # ws)) = (rev cur @ v) # map (\<lambda>w. '' '' @ w) ws"
proof (induction ws arbitrary: v cur)
  case Nil
  then have "CHR '','' \<notin> set v" by simp
  from split_on_from_append [OF this, of cur "[]"] show ?case by simp
next
  case (Cons w ws)
  then have v: "CHR '','' \<notin> set v" and rest: "\<forall>x \<in> set (w # ws). CHR '','' \<notin> set x" by auto
  have "split_on_from (CHR '','') cur (join '', '' (v # w # ws))
          = split_on_from (CHR '','') (rev v @ cur) ('', '' @ join '', '' (w # ws))"
    using split_on_from_append [OF v, of cur "'', '' @ join '', '' (w # ws)"] by simp
  also have "\<dots> = (rev cur @ v) # split_on_from (CHR '','') '' '' (join '', '' (w # ws))"
    by simp
  also have "\<dots> = (rev cur @ v) # ('' '' @ w) # map (\<lambda>w. '' '' @ w) ws"
    using Cons.IH [OF rest, of "'' ''"] by simp
  finally show ?case by simp
qed

lemma csv_numbers_join:
  assumes "\<forall>v \<in> set vs. v \<noteq> [] \<and> (\<forall>c \<in> set v. \<not> is_space c) \<and> CHR '','' \<notin> set v"
  shows "csv_numbers (join '', '' vs) = vs"
proof (cases vs)
  case Nil
  then show ?thesis by (simp add: csv_numbers_def split_on_def trim_def)
next
  case (Cons v ws)
  with assms have "split_on (CHR '','') (join '', '' vs) = v # map (\<lambda>w. '' '' @ w) ws"
    using split_on_from_join [of v ws "[]"] by (simp add: split_on_def)
  moreover from assms Cons have "trim v = v" "v \<noteq> []"
    by (simp_all add: trim_no_space)
  moreover have "map trim (map (\<lambda>w. '' '' @ w) ws) = ws"
  proof -
    have "(trim \<circ> (\<lambda>w. '' '' @ w)) w = w" if "w \<in> set ws" for w
      using that assms Cons by (simp add: trim_leading_space)
    then show ?thesis by (simp add: map_idI)
  qed
  moreover from assms Cons have "filter (\<lambda>n. n \<noteq> []) ws = ws"
    by (simp add: filter_id_conv)
  ultimately show ?thesis using Cons by (simp add: csv_numbers_def)
qed

lemma join_nonempty: "vs \<noteq> [] \<Longrightarrow> hd vs \<noteq> [] \<Longrightarrow> join sep vs \<noteq> []"
  by (cases "(sep, vs)" rule: join.cases) auto


lemma prize_not_inherited: "prize \<in> set PRIZE_LIST \<Longrightarrow> prize \<notin> set inherited_names"
  by (auto simp: PRIZE_LIST_def inherited_names_def)

lemma csv_date_parsed:
  assumes look: "map_of store d = Some agg"
    and parsed: "parseTextToAggregate strict op d (source d) = (Inr agg, op')"
    and prize: "prize \<in> set PRIZE_LIST"
    and nocomma: "\<forall>v \<in> set (exported_vals prize (source d)). CHR '','' \<notin> set v"
  shows "csv_date store prize d csv
           = Inr (csv @ map (\<lambda>v. v @ '','' @ d) (exported_vals prize (source d)))"
proof -
  note r = parse_results_lookup [OF parsed prize]
  show ?thesis
  proof (cases "last_tagged prize (drop 1 (split_lines (source d)))")
    case None
    with r have "map_of (results agg) prize = None" by (simp add: display_of_def)
    with look prize None show ?thesis
      by (simp add: csv_date_def exported_vals_def prize_not_inherited)
  next
    case (Some l)
    then have ev: "exported_vals prize (source d) = line_vals l"
      by (simp add: exported_vals_def)
    from r Some have res: "map_of (results agg) prize = Some (join '', '' (line_vals l))"
      by (simp add: display_of_def)
    show ?thesis
    proof (cases "line_vals l")
      case Nil
      with look res ev show ?thesis by (simp add: csv_date_def)
    next
      case (Cons v vs)
      then have "v \<in> set (line_vals l)" by simp
      then have "v \<noteq> []" using line_vals_shape by blast
      with Cons have ne: "join '', '' (line_vals l) \<noteq> []"
        using join_nonempty [of "line_vals l" "'', ''"] by simp
      have "\<forall>v \<in> set (line_vals l). v \<noteq> [] \<and> (\<forall>c \<in> set v. \<not> is_space c) \<and> CHR '','' \<notin> set v"
        using line_vals_shape nocomma ev by auto
      then have "csv_numbers (join '', '' (line_vals l)) = line_vals l"
        by (rule csv_numbers_join)
      with look res ne ev show ?thesis by (simp add: csv_date_def)
    qed
  qed
qed

lemma fold_csv_date_parsed:
  assumes "prize \<in> set PRIZE_LIST"
    and "\<forall>d \<in> set ds. \<exists>agg strict op op'. map_of store d = Some agg
           \<and> parseTextToAggregate strict op d (source d) = (Inr agg, op')"
    and "\<forall>d \<in> set ds. \<forall>v \<in> set (exported_vals prize (source d)). CHR '','' \<notin> set v"
  shows "fold_err (csv_date store prize) ds csv
           = Inr (csv @ concat (map (\<lambda>d. map (\<lambda>v. v @ '','' @ d) (exported_vals prize (source d))) ds))"
  using assms(2,3)
proof (induction ds arbitrary: csv)
  case Nil
  then show ?case by simp
next
  case (Cons d ds)
  from Cons.prems(1) obtain agg strict op op' where
    look: "map_of store d = Some agg"
    and parsed: "parseTextToAggregate strict op d (source d) = (Inr agg, op')"
    by auto
  from Cons.prems(2) have nocomma: "\<forall>v \<in> set (exported_vals prize (source d)). CHR '','' \<notin> set v"
    by simp
  note one = csv_date_parsed [where source = source and csv = csv, OF look parsed assms(1) nocomma]
  from Cons.prems have
    "\<forall>d \<in> set ds. \<exists>agg strict op op'. map_of store d = Some agg
           \<and> parseTextToAggregate strict op d (source d) = (Inr agg, op')"
    and "\<forall>d \<in> set ds. \<forall>v \<in> set (exported_vals prize (source d)). CHR '','' \<notin> set v"
    by simp_all
  from Cons.IH [OF this] one show ?case by simp
qed

text \<open>
  C8, as the code has it. The export reads each file's display string, so for a store of
  parsed files it lists, date by date in ascending order of date, one line
  \<^verbatim>\<open>value,date\<close> for every value of the last line that carries the category's tag,
  provided those values contain no comma.
\<close>

theorem C8_csv_lists_last_tagged_line_by_date:
  assumes "distinct (map fst store)" and "prize \<in> set PRIZE_LIST"
    and "\<forall>(d, agg) \<in> set store. \<exists>strict op op'.
           parseTextToAggregate strict op d (source d) = (Inr agg, op')"
    and "\<forall>d \<in> fst ` set store. \<forall>v \<in> set (exported_vals prize (source d)). CHR '','' \<notin> set v"
  shows "csv_lines dateOf prize store
           = Inr (concat (map (\<lambda>d. map (\<lambda>v. v @ '','' @ d) (exported_vals prize (source d)))
                    (sort_key dateOf (map fst store))))"
proof -
  let ?ds = "sort_key dateOf (map fst store)"
  have keys: "set ?ds = fst ` set store" by simp
  have "\<exists>agg strict op op'. map_of store d = Some agg
           \<and> parseTextToAggregate strict op d (source d) = (Inr agg, op')" if "d \<in> set ?ds" for d
  proof -
    from that keys obtain agg where mem: "(d, agg) \<in> set store" by auto
    with assms(1) have "map_of store d = Some agg" by (rule map_of_is_SomeI)
    moreover from assms(3) mem obtain strict op op' where
      "parseTextToAggregate strict op d (source d) = (Inr agg, op')" by blast
    ultimately show ?thesis by blast
  qed
  then have a: "\<forall>d \<in> set ?ds. \<exists>agg strict op op'. map_of store d = Some agg
           \<and> parseTextToAggregate strict op d (source d) = (Inr agg, op')"
    by blast
  from assms(4) keys have b: "\<forall>d \<in> set ?ds. \<forall>v \<in> set (exported_vals prize (source d)). CHR '','' \<notin> set v"
    by blast
  from fold_csv_date_parsed [where source = source and csv = "[]", OF assms(2) a b] show ?thesis
    by (simp add: csv_lines_def)
qed

theorem C8_csv_lists_last_tagged_line_by_date_witness:
  "distinct (map fst sample_store) \<and> ''TWO'' \<in> set PRIZE_LIST
   \<and> parseTextToAggregate False fresh_realm ''2020-02-01'' (sample_source ''2020-02-01'')
       = (Inr (sample_parsed ''2020-02-01''), fresh_realm)
   \<and> parseTextToAggregate False fresh_realm ''2020-01-16'' (sample_source ''2020-01-16'')
       = (Inr (sample_parsed ''2020-01-16''), fresh_realm)
   \<and> csv_lines sample_dateOf ''TWO'' sample_store
       = Inr [''12,2020-01-16'', ''34,2020-01-16'', ''56,2020-02-01'']"
proof -
  have keys: "distinct (map fst sample_store)"
    by (simp add: sample_store_def)
  have prize: "''TWO'' \<in> set PRIZE_LIST"
    by (simp add: PRIZE_LIST_def)
  have p1: "parseTextToAggregate False fresh_realm ''2020-02-01'' (sample_source ''2020-02-01'')
       = (Inr (sample_parsed ''2020-02-01''), fresh_realm)"
    by code_simp
  have p2: "parseTextToAggregate False fresh_realm ''2020-01-16'' (sample_source ''2020-01-16'')
       = (Inr (sample_parsed ''2020-01-16''), fresh_realm)"
    by code_simp
  have parsed: "\<forall>(d, agg) \<in> set sample_store. \<exists>strict op op'.
           parseTextToAggregate strict op d (sample_source d) = (Inr agg, op')"
    unfolding sample_store_def using p1 p2 by (simp del: split_paired_All) blast
  have nocomma: "\<forall>d \<in> fst ` set sample_store.
           \<forall>v \<in> set (exported_vals ''TWO'' (sample_source d)). CHR '','' \<notin> set v"
    by code_simp
  have out: "concat (map (\<lambda>d. map (\<lambda>v. v @ '','' @ d) (exported_vals ''TWO'' (sample_source d)))
               (sort_key sample_dateOf (map fst sample_store)))
             = [''12,2020-01-16'', ''34,2020-01-16'', ''56,2020-02-01'']"
    by code_simp
  from C8_csv_lists_last_tagged_line_by_date
         [where source = sample_source and dateOf = sample_dateOf, OF keys prize parsed nocomma]
       out keys prize p1 p2
  show ?thesis by simp
qed

text \<open>
  The claim as stated fails: of the two accepted \<^verbatim>\<open>FIRST\<close> values of the file with two
  \<^verbatim>\<open>FIRST\<close> lines, the export lists only the second.
\<close>

theorem C8_overwritten_line_not_exported_counterexample:
  "returned (parseTextToAggregate False fresh_realm ''2020-01-16'' two_first_lines)
     = Some two_first_agg
   \<and> csv_lines (\<lambda>d. 0) ''FIRST'' [(''2020-01-16'', two_first_agg)] = Inr [''222222,2020-01-16'']
   \<and> value_count two_first_agg ''FIRST'' ''111111'' = Some 1"
  by code_simp

end
